(* ===== verification/Prelude.thy ===== *)
theory Prelude
  imports Main "HOL-Library.Word" "HOL-Library.Multiset"
begin

text \<open>
  Shared vocabulary of the development: the names of the scalar types that the
  C++ sources use everywhere, the outcome of a blocking wait, the collections
  of rewrite rules that the component theories extend, and the generic facts
  on lists, maps and multisets that more than one component needs.
\<close>

named_theorems op_defs \<open>definitions of the operations of a component\<close>
named_theorems inv_defs \<open>definitions of the invariants of a component\<close>
named_theorems inv_intros \<open>preservation of an invariant by an operation\<close>

section \<open>Scalar types\<close>

type_synonym byte = "8 word"
type_synonym bytes = "byte list"
type_synonym u16 = "16 word"
type_synonym u32 = "32 word"
type_synonym u64 = "64 word"

text \<open>A \<open>time_point\<close> is its tick count, a \<open>duration\<close> a difference of two of them.\<close>

type_synonym time_point = int
type_synonym duration = int

text \<open>The outcome of a wait on a condition variable.\<close>

datatype 'a wait_result = Blocked | Returned 'a

section \<open>Lists indexed by keys\<close>

definition opt_list :: "'a list option \<Rightarrow> 'a list" where
  "opt_list q = (case q of None \<Rightarrow> [] | Some xs \<Rightarrow> xs)"

lemma opt_list_simps [simp]:
  "opt_list None = []" "opt_list (Some xs) = xs"
  by (simp_all add: opt_list_def)

lemma sum_list_change_one:
  fixes g h :: "'a \<Rightarrow> 'c::comm_monoid_add"
  assumes "distinct ds" "d \<in> set ds" "\<And>x. x \<noteq> d \<Longrightarrow> h x = g x"
  shows "(\<Sum>x\<leftarrow>ds. h x) + g d = (\<Sum>x\<leftarrow>ds. g x) + h d"
  using assms(1,2)
proof (induction ds)
  case (Cons a ds)
  show ?case
  proof (cases "a = d")
    case True
    with Cons.prems have "(\<Sum>x\<leftarrow>ds. h x) = (\<Sum>x\<leftarrow>ds. g x)"
      by (intro arg_cong [where f = sum_list] map_cong refl assms(3)) auto
    with True show ?thesis by (simp add: ac_simps)
  next
    case False
    with Cons have "(\<Sum>x\<leftarrow>ds. h x) + g d = (\<Sum>x\<leftarrow>ds. g x) + h d" by simp
    with assms(3) [OF False] show ?thesis by (simp add: add.assoc)
  qed
qed simp

lemma sum_list_change_none:
  assumes "d \<notin> set ds" "\<And>x. x \<noteq> d \<Longrightarrow> h x = g x"
  shows "(\<Sum>x\<leftarrow>ds. h x) = (\<Sum>x\<leftarrow>ds. g x)"
  using assms by (intro arg_cong [where f = sum_list] map_cong refl assms(2)) auto

lemma sum_list_filter_neq:
  fixes f :: "'a \<Rightarrow> 'c::comm_monoid_add"
  assumes "distinct ds" "d \<in> set ds"
  shows "(\<Sum>x\<leftarrow>ds. f x) = f d + (\<Sum>x\<leftarrow>filter (\<lambda>x. x \<noteq> d) ds. f x)"
  using assms
proof (induction ds)
  case (Cons a ds)
  show ?case
  proof (cases "a = d")
    case True
    with Cons.prems have "filter (\<lambda>x. x \<noteq> d) ds = ds" by (auto simp: filter_id_conv)
    with True show ?thesis by simp
  next
    case False
    with Cons show ?thesis by (simp add: ac_simps)
  qed
qed simp

lemma filter_neq_notin [simp]: "d \<notin> set ds \<Longrightarrow> filter (\<lambda>x. x \<noteq> d) ds = ds"
  by (induction ds) auto

section \<open>Counting on machine words\<close>

lemma unat_inc: "unat (a :: 'a::len word) < unat (b :: 'a word) \<Longrightarrow> unat (a + 1) = Suc (unat a)"
proof -
  assume "unat a < unat b"
  moreover have "unat b < 2 ^ LENGTH('a)" by (rule unsigned_less)
  ultimately have "Suc (unat a) < 2 ^ LENGTH('a)" by linarith
  then show ?thesis by (simp add: unat_word_ariths)
qed

lemma unat_dec: "0 < unat (a :: 'a::len word) \<Longrightarrow> unat (a - 1) = unat a - 1"
  by (metis unat_minus_one less_irrefl unat_0)

end
