(* ===== verification/Messaging_Types.thy ===== *)
theory Messaging_Types
  imports Prelude
begin

text \<open>
  The value types of the messaging service (\<open>src/src/messaging/domain\<close>):
  identifiers, priorities, the encrypted per-device envelope and the delivery
  task that the scheduler queues.
\<close>

section \<open>Identifiers\<close>

text \<open>\<open>MessageId\<close> and \<open>ConversationId\<close> hold sixteen bytes, \<open>DeviceId\<close> and
  \<open>UserId\<close> a string.\<close>

type_synonym message_id = bytes
type_synonym conversation_id = bytes
type_synonym device_id = string
type_synonym user_id = string

definition id_is_nil :: "bytes \<Rightarrow> bool" where
  "id_is_nil bs = (bs = replicate 16 0)"

section \<open>Priorities and envelopes\<close>

datatype message_priority = Normal | Urgent | Emergency

definition message_priority_to_string :: "message_priority \<Rightarrow> string" where
  "message_priority_to_string p =
     (case p of Normal \<Rightarrow> ''NORMAL'' | Urgent \<Rightarrow> ''URGENT'' | Emergency \<Rightarrow> ''EMERGENCY'')"

definition message_priority_from_string :: "string \<Rightarrow> message_priority option" where
  "message_priority_from_string sv =
     (if sv = ''NORMAL'' then Some Normal
      else if sv = ''URGENT'' then Some Urgent
      else if sv = ''EMERGENCY'' then Some Emergency
      else None)"

datatype e2e_protocol_version =
  PV_Unspecified | V1_Signal_PQXDH_DoubleRatchet | V2_Hybrid_PostQuantum

datatype e2e_algorithm = Alg_Unspecified | XChaCha20_Poly1305 | AES_256_GCM

record per_device_envelope =
  env_recipient_user_id :: user_id
  env_recipient_device_id :: device_id
  env_protocol_version :: e2e_protocol_version
  env_algorithm :: e2e_algorithm
  env_ciphertext_blob :: string
  env_ephemeral_public_key :: bytes
  env_iv :: bytes
  env_auth_tag :: bytes
  env_one_time_prekey_id :: "string option"

section \<open>Delivery tasks\<close>

record delivery_task =
  task_message_id :: message_id
  task_conversation_id :: conversation_id
  task_recipient_device_id :: device_id
  task_recipient_user_id :: user_id
  task_priority :: message_priority
  task_attempt_count :: int
  task_accepted_at :: time_point
  task_scheduled_at :: time_point
  task_expires_at :: "time_point option"
  task_envelope :: per_device_envelope

lemma message_priority_round_trip [simp]:
  "message_priority_from_string (message_priority_to_string p) = Some p"
  by (cases p) (simp_all add: message_priority_from_string_def message_priority_to_string_def)

end
