(* ===== verification/Queue_Contract.thy ===== *)
theory Queue_Contract
  imports Prelude
begin

text \<open>
  The contract that the bounded queues of the services share: the delivery
  scheduler of messaging and the ingestion and batch queues of audit.  A queue
  accepts or refuses an element and hands out the elements it has accepted;
  which one comes next is the business of the queue.
\<close>

datatype 'e queue_op = Put 'e | Take

text \<open>Runs a sequence of operations and collects the accepted elements and the
  elements handed out, both in order.\<close>

fun run_queue :: "('e \<Rightarrow> 's \<Rightarrow> bool \<times> 's) \<Rightarrow> ('s \<Rightarrow> 'a option \<times> 's) \<Rightarrow> 'e queue_op list \<Rightarrow> 's
    \<Rightarrow> 'e list \<times> 'a list \<times> 's" where
  "run_queue put get [] s = ([], [], s)"
| "run_queue put get (Put e # ops) s =
     (let (ok, s1) = put e s; (acc, out, s2) = run_queue put get ops s1
      in (if ok then e # acc else acc, out, s2))"
| "run_queue put get (Take # ops) s =
     (let (r, s1) = get s; (acc, out, s2) = run_queue put get ops s1
      in (acc, (case r of Some a \<Rightarrow> a # out | None \<Rightarrow> out), s2))"

locale bounded_queue =
  fixes inv :: "'s \<Rightarrow> bool"
    and contents :: "'s \<Rightarrow> 'a multiset"
    and item :: "'e \<Rightarrow> 'a"
    and capacity :: nat
    and put :: "'e \<Rightarrow> 's \<Rightarrow> bool \<times> 's"
    and get :: "'s \<Rightarrow> 'a option \<times> 's"
  assumes put_inv: "inv s \<Longrightarrow> put e s = (ok, s') \<Longrightarrow> inv s'"
    and put_contents: "inv s \<Longrightarrow> put e s = (ok, s') \<Longrightarrow>
          contents s' = contents s + (if ok then {#item e#} else {#})"
    and get_inv: "inv s \<Longrightarrow> get s = (r, s') \<Longrightarrow> inv s'"
    and get_contents: "inv s \<Longrightarrow> get s = (r, s') \<Longrightarrow>
          contents s = contents s' + (case r of Some a \<Rightarrow> {#a#} | None \<Rightarrow> {#})"
    and get_none: "inv s \<Longrightarrow> get s = (None, s') \<Longrightarrow> contents s = {#}"
    and bounded: "inv s \<Longrightarrow> size (contents s) \<le> capacity"
begin

lemma run_inv:
  assumes "inv s" "run_queue put get ops s = (acc, out, s')"
  shows "inv s'"
  using assms
proof (induction ops arbitrary: s acc out s')
  case (Cons p ops)
  then show ?case
    by (cases p) (fastforce split: prod.splits dest: put_inv get_inv)+
qed simp

lemma run_conservation:
  assumes "inv s" "run_queue put get ops s = (acc, out, s')"
  shows "mset out + contents s' = contents s + image_mset item (mset acc)"
  using assms
proof (induction ops arbitrary: s acc out s')
  case (Cons p ops)
  show ?case
  proof (cases p)
    case (Put e)
    obtain ok s1 where p1: "put e s = (ok, s1)" by fastforce
    obtain acc1 out1 s2 where r1: "run_queue put get ops s1 = (acc1, out1, s2)" by (rule prod_cases3)
    from Cons.IH [OF put_inv [OF Cons.prems(1) p1] r1] put_contents [OF Cons.prems(1) p1]
    show ?thesis using Cons.prems(2) Put p1 r1 by (auto split: if_splits)
  next
    case Take
    obtain r s1 where g1: "get s = (r, s1)" by fastforce
    obtain acc1 out1 s2 where r1: "run_queue put get ops s1 = (acc1, out1, s2)" by (rule prod_cases3)
    from Cons.IH [OF get_inv [OF Cons.prems(1) g1] r1] get_contents [OF Cons.prems(1) g1]
    show ?thesis using Cons.prems(2) Take g1 r1 by (auto split: option.splits)
  qed
qed simp

lemma run_backlog:
  assumes "inv s" "contents s = {#}" "run_queue put get ops s = (acc, out, s')"
  shows "length out \<le> length acc" "length acc \<le> length out + capacity"
proof -
  have "size (mset out + contents s') = size (image_mset item (mset acc))"
    using run_conservation [OF assms(1,3)] assms(2) by simp
  then show "length out \<le> length acc" "length acc \<le> length out + capacity"
    using bounded [OF run_inv [OF assms(1,3)]] by simp_all
qed

lemma drain_all:
  assumes "inv s" "size (contents s) \<le> n" "run_queue put get (replicate n Take) s = (acc, out, s')"
  shows "contents s' = {#}" "mset out = contents s"
proof -
  have "contents s' = {#} \<and> mset out = contents s"
    using assms
  proof (induction n arbitrary: s acc out s')
    case (Suc n)
    obtain r s1 where g1: "get s = (r, s1)" by fastforce
    obtain acc1 out1 s2 where r1: "run_queue put get (replicate n Take) s1 = (acc1, out1, s2)"
      by (rule prod_cases3)
    have "size (contents s1) \<le> n"
      using get_contents [OF Suc.prems(1) g1] get_none [OF Suc.prems(1)] g1 Suc.prems(2)
      by (cases r) auto
    from Suc.IH [OF get_inv [OF Suc.prems(1) g1] this r1] get_contents [OF Suc.prems(1) g1]
    show ?case using Suc.prems(3) g1 r1 by (auto split: option.splits)
  qed simp
  then show "contents s' = {#}" "mset out = contents s" by simp_all
qed

end

end
