(* ===== verification/Delivery_Scheduler.thy ===== *)
theory Delivery_Scheduler
  imports Messaging_Types Queue_Contract
begin

text \<open>
  \<open>BoundedDeliveryScheduler\<close> (\<open>src/src/messaging/delivery\<close>): an emergency
  queue, one queue per recipient device, and a ring of the devices that have
  work, served round robin with a quantum.  Every public operation takes the
  mutex for its whole body, so an operation is one atomic step on the state.
\<close>

section \<open>State\<close>

datatype scheduler_status =
    Enqueued | DeviceQueueFull | GlobalCapacityExhausted | RejectedShuttingDown | InvalidTask

definition scheduler_status_to_string :: "scheduler_status \<Rightarrow> string" where
  "scheduler_status_to_string st = (case st of
       Enqueued \<Rightarrow> ''ENQUEUED''
     | DeviceQueueFull \<Rightarrow> ''DEVICE_QUEUE_FULL''
     | GlobalCapacityExhausted \<Rightarrow> ''GLOBAL_CAPACITY_EXHAUSTED''
     | RejectedShuttingDown \<Rightarrow> ''REJECTED_SHUTTING_DOWN''
     | InvalidTask \<Rightarrow> ''INVALID_TASK'')"

record scheduler_config =
  max_global_queued_tasks :: nat
  max_tasks_per_device :: nat
  emergency_queue_reserved_slots :: nat
  fairness_quanta_per_device :: nat

definition default_scheduler_config :: scheduler_config where
  "default_scheduler_config =
     \<lparr> max_global_queued_tasks = 10000, max_tasks_per_device = 50,
       emergency_queue_reserved_slots = 1000, fairness_quanta_per_device = 5 \<rparr>"

record scheduler =
  is_shut_down :: bool
  total_tasks_count :: nat
  emergency_queue :: "delivery_task list"
  per_device_queues :: "device_id \<rightharpoonup> delivery_task list"
  active_device_ring :: "device_id list"
  active_device_set :: "device_id set"
  current_device_quanta_consumed :: nat

definition new_scheduler :: scheduler where
  "new_scheduler =
     \<lparr> is_shut_down = False, total_tasks_count = 0, emergency_queue = [],
       per_device_queues = Map.empty, active_device_ring = [], active_device_set = {},
       current_device_quanta_consumed = 0 \<rparr>"

section \<open>Operations\<close>

definition schedule ::
    "scheduler_config \<Rightarrow> time_point \<Rightarrow> delivery_task \<Rightarrow> scheduler \<Rightarrow> scheduler_status \<times> scheduler" where
  "schedule cfg now task s =
    (if is_shut_down s then (RejectedShuttingDown, s)
     else if task_recipient_device_id task = [] \<or> id_is_nil (task_message_id task)
             \<or> id_is_nil (task_conversation_id task) then (InvalidTask, s)
     else if (case task_expires_at task of None \<Rightarrow> False | Some e \<Rightarrow> e \<le> now) then (InvalidTask, s)
     else if task_priority task = Emergency then
       (if total_tasks_count s \<ge> max_global_queued_tasks cfg + emergency_queue_reserved_slots cfg
        then (GlobalCapacityExhausted, s)
        else (Enqueued, s\<lparr> emergency_queue := emergency_queue s @ [task],
                            total_tasks_count := total_tasks_count s + 1 \<rparr>))
     else if total_tasks_count s \<ge> max_global_queued_tasks cfg then (GlobalCapacityExhausted, s)
     else
       let dev_id = task_recipient_device_id task;
           dev_queue = opt_list (per_device_queues s dev_id);
           s1 = s\<lparr> per_device_queues := (per_device_queues s)(dev_id \<mapsto> dev_queue) \<rparr>
       in if length dev_queue \<ge> max_tasks_per_device cfg then (DeviceQueueFull, s1)
          else
            let s2 = s1\<lparr> per_device_queues := (per_device_queues s1)(dev_id \<mapsto> dev_queue @ [task]),
                         total_tasks_count := total_tasks_count s1 + 1 \<rparr>
            in (Enqueued,
                if dev_id \<in> active_device_set s2 then s2
                else s2\<lparr> active_device_set := insert dev_id (active_device_set s2),
                         active_device_ring := active_device_ring s2 @ [dev_id] \<rparr>))"

text \<open>The \<open>while\<close> loop of \<open>dequeue_locked\<close>: every iteration that does not
  return pops the front of the ring.\<close>

function dequeue_ring :: "scheduler_config \<Rightarrow> scheduler \<Rightarrow> delivery_task option \<times> scheduler" where
  "dequeue_ring cfg s =
    (case active_device_ring s of
       [] \<Rightarrow> (None, s)
     | current_dev # rest \<Rightarrow>
        (case opt_list (per_device_queues s current_dev) of
           [] \<Rightarrow> dequeue_ring cfg
                   (s\<lparr> active_device_set := active_device_set s - {current_dev},
                      active_device_ring := rest,
                      per_device_queues := (per_device_queues s)(current_dev := None),
                      current_device_quanta_consumed := 0 \<rparr>)
         | task # q \<Rightarrow>
            let s1 = s\<lparr> per_device_queues := (per_device_queues s)(current_dev \<mapsto> q),
                        total_tasks_count := total_tasks_count s - 1,
                        current_device_quanta_consumed := current_device_quanta_consumed s + 1 \<rparr>
            in (Some task,
                if q = [] then
                  s1\<lparr> per_device_queues := (per_device_queues s1)(current_dev := None),
                      active_device_set := active_device_set s1 - {current_dev},
                      active_device_ring := rest,
                      current_device_quanta_consumed := 0 \<rparr>
                else if current_device_quanta_consumed s1 \<ge> fairness_quanta_per_device cfg then
                  s1\<lparr> active_device_ring := rest @ [current_dev],
                      current_device_quanta_consumed := 0 \<rparr>
                else s1)))"
  by pat_completeness auto
termination
  by (relation "measure (\<lambda>(cfg, s). length (active_device_ring s))") auto

definition dequeue_locked :: "scheduler_config \<Rightarrow> scheduler \<Rightarrow> delivery_task option \<times> scheduler" where
  "dequeue_locked cfg s =
    (case emergency_queue s of
       task # q \<Rightarrow> (Some task, s\<lparr> emergency_queue := q,
                                total_tasks_count := total_tasks_count s - 1 \<rparr>)
     | [] \<Rightarrow> dequeue_ring cfg s)"

definition try_dequeue :: "scheduler_config \<Rightarrow> scheduler \<Rightarrow> delivery_task option \<times> scheduler" where
  "try_dequeue cfg s = (if total_tasks_count s = 0 then (None, s) else dequeue_locked cfg s)"

text \<open>The blocking \<open>dequeue\<close>, in the state in which its wait is evaluated: with
  a zero timeout the caller stays blocked until the predicate holds, otherwise
  the wait gives up with the predicate false.\<close>

definition dequeue ::
    "scheduler_config \<Rightarrow> duration \<Rightarrow> scheduler \<Rightarrow> (delivery_task option \<times> scheduler) wait_result" where
  "dequeue cfg timeout s =
    (let ready = (is_shut_down s \<or> total_tasks_count s > 0) in
     if timeout = 0 then (if ready then Returned (dequeue_locked cfg s) else Blocked)
     else if \<not> ready \<and> total_tasks_count s = 0 then Returned (None, s)
     else Returned (dequeue_locked cfg s))"

definition drain_device_queue :: "device_id \<Rightarrow> scheduler \<Rightarrow> delivery_task list \<times> scheduler" where
  "drain_device_queue device_id s =
    (let q = opt_list (per_device_queues s device_id);
         em = filter (\<lambda>t. task_recipient_device_id t = device_id) (emergency_queue s)
     in (q @ em,
         s\<lparr> total_tasks_count := total_tasks_count s - length q - length em,
            per_device_queues := (per_device_queues s)(device_id := None),
            active_device_set := active_device_set s - {device_id},
            current_device_quanta_consumed :=
              (case active_device_ring s of
                 [] \<Rightarrow> current_device_quanta_consumed s
               | d # _ \<Rightarrow> if d = device_id then 0 else current_device_quanta_consumed s),
            active_device_ring := filter (\<lambda>d. d \<noteq> device_id) (active_device_ring s),
            emergency_queue :=
              filter (\<lambda>t. task_recipient_device_id t \<noteq> device_id) (emergency_queue s) \<rparr>))"

definition purge_device_tasks :: "device_id \<Rightarrow> scheduler \<Rightarrow> nat \<times> scheduler" where
  "purge_device_tasks device_id s =
    (case drain_device_queue device_id s of (drained, s') \<Rightarrow> (length drained, s'))"

definition clear_scheduler :: "scheduler \<Rightarrow> scheduler" where
  "clear_scheduler s =
     s\<lparr> emergency_queue := [], per_device_queues := Map.empty, active_device_ring := [],
        active_device_set := {}, total_tasks_count := 0, current_device_quanta_consumed := 0 \<rparr>"

definition shutdown_scheduler :: "scheduler \<Rightarrow> scheduler" where
  "shutdown_scheduler s = s\<lparr> is_shut_down := True \<rparr>"

definition global_queue_depth :: "scheduler \<Rightarrow> nat" where
  "global_queue_depth s = total_tasks_count s"

definition device_queue_depth :: "device_id \<Rightarrow> scheduler \<Rightarrow> nat" where
  "device_queue_depth d s = (case per_device_queues s d of Some q \<Rightarrow> length q | None \<Rightarrow> 0)"

definition emergency_queue_depth :: "scheduler \<Rightarrow> nat" where
  "emergency_queue_depth s = length (emergency_queue s)"

definition active_device_count :: "scheduler \<Rightarrow> nat" where
  "active_device_count s = card (active_device_set s)"

section \<open>Invariant\<close>

text \<open>The queue of a device, and all the tasks that the scheduler holds.\<close>

definition queue_of :: "scheduler \<Rightarrow> device_id \<Rightarrow> delivery_task list" where
  "queue_of s d = opt_list (per_device_queues s d)"

definition queued_tasks :: "scheduler \<Rightarrow> delivery_task multiset" where
  "queued_tasks s = mset (emergency_queue s) + (\<Sum>d\<leftarrow>active_device_ring s. mset (queue_of s d))"

definition ring_load :: "scheduler \<Rightarrow> nat" where
  "ring_load s = (\<Sum>d\<leftarrow>active_device_ring s. length (queue_of s d))"

definition quantum :: "scheduler_config \<Rightarrow> nat" where
  "quantum cfg = max 1 (fairness_quanta_per_device cfg)"

definition ring_ok :: "scheduler \<Rightarrow> bool" where
  "ring_ok s = (distinct (active_device_ring s) \<and> set (active_device_ring s) = active_device_set s
     \<and> (\<forall>d. d \<in> active_device_set s \<longleftrightarrow> queue_of s d \<noteq> []))"

definition queues_ok :: "scheduler_config \<Rightarrow> scheduler \<Rightarrow> bool" where
  "queues_ok cfg s = ((\<forall>d. length (queue_of s d) \<le> max_tasks_per_device cfg)
     \<and> (\<forall>d. \<forall>t \<in> set (queue_of s d). task_recipient_device_id t = d \<and> task_priority t \<noteq> Emergency)
     \<and> (\<forall>t \<in> set (emergency_queue s). task_priority t = Emergency))"

definition counts_ok :: "scheduler_config \<Rightarrow> scheduler \<Rightarrow> bool" where
  "counts_ok cfg s = (total_tasks_count s = length (emergency_queue s) + ring_load s
     \<and> ring_load s \<le> max_global_queued_tasks cfg
     \<and> total_tasks_count s \<le> max_global_queued_tasks cfg + emergency_queue_reserved_slots cfg
     \<and> current_device_quanta_consumed s < quantum cfg
     \<and> (active_device_ring s = [] \<longrightarrow> current_device_quanta_consumed s = 0))"

definition scheduler_inv :: "scheduler_config \<Rightarrow> scheduler \<Rightarrow> bool" where
  "scheduler_inv cfg s = (ring_ok s \<and> queues_ok cfg s \<and> counts_ok cfg s)"

lemmas scheduler_inv_defs = scheduler_inv_def ring_ok_def queues_ok_def counts_ok_def ring_load_def

lemma new_scheduler_inv: "scheduler_inv cfg new_scheduler"
  by (simp add: scheduler_inv_defs new_scheduler_def queue_of_def quantum_def)

lemma queue_of_update [simp]:
  "per_device_queues s' = (per_device_queues s)(d := v) \<Longrightarrow>
     queue_of s' x = (if x = d then opt_list v else queue_of s x)"
  by (simp add: queue_of_def)

text \<open>The three ways in which an operation of the ring changes one queue.\<close>

lemma ring_sum_append:
  assumes "distinct ds" "d \<in> set ds" "\<And>x. x \<noteq> d \<Longrightarrow> q' x = q x" "q' d = q d @ [t]"
  shows "(\<Sum>x\<leftarrow>ds. length (q' x)) = Suc (\<Sum>x\<leftarrow>ds. length (q x))"
    and "(\<Sum>x\<leftarrow>ds. mset (q' x)) = add_mset t (\<Sum>x\<leftarrow>ds. mset (q x))"
proof -
  have "(\<Sum>x\<leftarrow>ds. length (q' x)) + length (q d) = (\<Sum>x\<leftarrow>ds. length (q x)) + length (q' d)"
    using assms by (intro sum_list_change_one) auto
  with assms(4) show "(\<Sum>x\<leftarrow>ds. length (q' x)) = Suc (\<Sum>x\<leftarrow>ds. length (q x))" by simp
  have "(\<Sum>x\<leftarrow>ds. mset (q' x)) + mset (q d) = (\<Sum>x\<leftarrow>ds. mset (q x)) + mset (q' d)"
    using assms by (intro sum_list_change_one) auto
  with assms(4) show "(\<Sum>x\<leftarrow>ds. mset (q' x)) = add_mset t (\<Sum>x\<leftarrow>ds. mset (q x))"
    by (simp add: ac_simps)
qed

section \<open>Scheduling\<close>

lemma schedule_elim:
  assumes "schedule cfg now t s = (st, s')"
  obtains
    (Reject) "st \<noteq> Enqueued" "queue_of s' = queue_of s" "emergency_queue s' = emergency_queue s"
      "active_device_ring s' = active_device_ring s" "active_device_set s' = active_device_set s"
      "total_tasks_count s' = total_tasks_count s"
      "current_device_quanta_consumed s' = current_device_quanta_consumed s"
      "is_shut_down s' = is_shut_down s"
  | (Emerg) "st = Enqueued" "task_priority t = Emergency"
      "total_tasks_count s < max_global_queued_tasks cfg + emergency_queue_reserved_slots cfg"
      "s' = s\<lparr> emergency_queue := emergency_queue s @ [t], total_tasks_count := total_tasks_count s + 1 \<rparr>"
  | (Device) "st = Enqueued" "task_priority t \<noteq> Emergency" "\<not> is_shut_down s"
      "total_tasks_count s < max_global_queued_tasks cfg"
      "length (queue_of s (task_recipient_device_id t)) < max_tasks_per_device cfg"
      "queue_of s' = (queue_of s)(task_recipient_device_id t := queue_of s (task_recipient_device_id t) @ [t])"
      "emergency_queue s' = emergency_queue s"
      "active_device_set s' = insert (task_recipient_device_id t) (active_device_set s)"
      "active_device_ring s' = (if task_recipient_device_id t \<in> active_device_set s
         then active_device_ring s else active_device_ring s @ [task_recipient_device_id t])"
      "total_tasks_count s' = Suc (total_tasks_count s)"
      "current_device_quanta_consumed s' = current_device_quanta_consumed s"
      "is_shut_down s' = is_shut_down s"
proof -
  note splits = if_splits option.splits
  show ?thesis
  proof (cases "st = Enqueued")
    case False
    with assms have "s' = s \<or> s' = s\<lparr> per_device_queues := (per_device_queues s)
        (task_recipient_device_id t \<mapsto> opt_list (per_device_queues s (task_recipient_device_id t))) \<rparr>"
      by (auto simp: schedule_def Let_def split: splits)
    then show ?thesis by (intro Reject False) (auto simp: queue_of_def fun_eq_iff)
  next
    case True
    show ?thesis
    proof (cases "task_priority t = Emergency")
      case em: True
      with True assms show ?thesis by (intro Emerg) (auto simp: schedule_def Let_def split: splits)
    next
      case False
      with True assms show ?thesis
        by (intro Device) (auto simp: schedule_def Let_def queue_of_def fun_eq_iff insert_absorb split: splits)
    qed
  qed
qed

lemma schedule_queued_tasks:
  assumes "schedule cfg now t s = (st, s')" "ring_ok s"
  shows "queued_tasks s' = queued_tasks s + (if st = Enqueued then {#t#} else {#})"
  using assms(1)
proof (cases rule: schedule_elim)
  case Device
  let ?d = "task_recipient_device_id t" and ?ds = "active_device_ring s"
  show ?thesis
  proof (cases "?d \<in> active_device_set s")
    case True
    with assms(2) have "(\<Sum>x\<leftarrow>?ds. mset (queue_of s' x)) = add_mset t (\<Sum>x\<leftarrow>?ds. mset (queue_of s x))"
      by (intro ring_sum_append(2)) (auto simp: ring_ok_def Device(6))
    with True Device show ?thesis by (simp add: queued_tasks_def)
  next
    case False
    with assms(2) have "?d \<notin> set ?ds" "queue_of s ?d = []" by (auto simp: ring_ok_def)
    moreover from this have "(\<Sum>x\<leftarrow>?ds. mset (queue_of s' x)) = (\<Sum>x\<leftarrow>?ds. mset (queue_of s x))"
      by (intro sum_list_change_none [where d = ?d]) (auto simp: Device(6))
    ultimately show ?thesis using False Device by (simp add: queued_tasks_def)
  qed
qed (simp_all add: queued_tasks_def queue_of_def fun_eq_iff)

lemma size_queued_tasks: "size (queued_tasks s) = length (emergency_queue s) + ring_load s"
proof -
  have "size (\<Sum>d\<leftarrow>ds. mset (queue_of s d)) = (\<Sum>d\<leftarrow>ds. length (queue_of s d))" for ds
    by (induction ds) auto
  then show ?thesis by (simp add: queued_tasks_def ring_load_def)
qed

lemma schedule_inv [inv_intros]:
  assumes "schedule cfg now t s = (st, s')" "scheduler_inv cfg s"
  shows "scheduler_inv cfg s'"
proof -
  have size: "size (queued_tasks s') = size (queued_tasks s) + (if st = Enqueued then 1 else 0)"
    using schedule_queued_tasks [OF assms(1)] assms(2) by (simp add: scheduler_inv_def)
  from assms(1) show ?thesis
  proof (cases rule: schedule_elim)
    case Reject
    with assms(2) show ?thesis by (simp add: scheduler_inv_defs)
  next
    case Emerg
    then have "queue_of s' = queue_of s" by (simp add: queue_of_def fun_eq_iff)
    with assms(2) Emerg show ?thesis by (simp add: scheduler_inv_defs)
  next
    case Device
    have ro: "ring_ok s" and qo: "queues_ok cfg s" and co: "counts_ok cfg s"
      using assms(2) by (simp_all add: scheduler_inv_def)
    have "ring_ok s'" using ro Device by (auto simp: ring_ok_def)
    moreover have "queues_ok cfg s'" using qo Device by (auto simp: queues_ok_def)
    moreover have "counts_ok cfg s'"
      using co ro size Device by (auto simp: counts_ok_def size_queued_tasks ring_ok_def)
    ultimately show ?thesis by (simp add: scheduler_inv_def)
  qed
qed

section \<open>Dequeuing\<close>

declare dequeue_ring.simps [simp del]

lemma dequeue_elim:
  assumes "dequeue_locked cfg s = (r, s')" "ring_ok s"
  obtains
    (Idle) "r = None" "s' = s" "emergency_queue s = []" "active_device_ring s = []"
  | (Emerg) t q where "emergency_queue s = t # q" "r = Some t"
      "s' = s\<lparr> emergency_queue := q, total_tasks_count := total_tasks_count s - 1 \<rparr>"
  | (Ring) d rest t q where "emergency_queue s = []" "active_device_ring s = d # rest"
      "queue_of s d = t # q" "r = Some t" "queue_of s' = (queue_of s)(d := q)"
      "emergency_queue s' = []" "total_tasks_count s' = total_tasks_count s - 1"
      "active_device_set s' = (if q = [] then active_device_set s - {d} else active_device_set s)"
      "active_device_ring s' = (if q = [] then rest
         else if Suc (current_device_quanta_consumed s) \<ge> fairness_quanta_per_device cfg
         then rest @ [d] else d # rest)"
      "current_device_quanta_consumed s' = (if q = []
           \<or> Suc (current_device_quanta_consumed s) \<ge> fairness_quanta_per_device cfg
         then 0 else Suc (current_device_quanta_consumed s))"
      "is_shut_down s' = is_shut_down s"
proof (cases "emergency_queue s")
  case (Cons t q)
  with assms(1) show ?thesis by (intro Emerg) (auto simp: dequeue_locked_def)
next
  case em: Nil
  with assms(1) have dr: "dequeue_ring cfg s = (r, s')" by (simp add: dequeue_locked_def)
  show ?thesis
  proof (cases "active_device_ring s")
    case Nil
    with dr em show ?thesis by (intro Idle) (auto simp: dequeue_ring.simps [of cfg s])
  next
    case (Cons d rest)
    with assms(2) have "queue_of s d \<noteq> []" by (auto simp: ring_ok_def)
    then obtain t q where q: "queue_of s d = t # q" by (cases "queue_of s d") auto
    then have "opt_list (per_device_queues s d) = t # q" by (simp add: queue_of_def)
    note unfolded = dr [unfolded dequeue_ring.simps [of cfg s] Cons list.case this]
    show ?thesis
      by (rule Ring [OF em Cons q])
         (use unfolded em Cons in \<open>auto simp: Let_def queue_of_def fun_eq_iff split: if_splits\<close>)
  qed
qed

lemma dequeue_queued_tasks:
  assumes "dequeue_locked cfg s = (r, s')" "ring_ok s"
  shows "queued_tasks s = queued_tasks s' + (case r of Some t \<Rightarrow> {#t#} | None \<Rightarrow> {#})"
  using assms
proof (cases rule: dequeue_elim)
  case (Emerg t q)
  then have "queue_of s' = queue_of s" by (simp add: queue_of_def fun_eq_iff)
  with Emerg show ?thesis by (simp add: queued_tasks_def)
next
  case (Ring d rest t q)
  then have "d \<notin> set rest" using assms(2) by (auto simp: ring_ok_def)
  then have "(\<Sum>x\<leftarrow>rest. mset (queue_of s' x)) = (\<Sum>x\<leftarrow>rest. mset (queue_of s x))"
    by (intro sum_list_change_none [where d = d]) (auto simp: Ring)
  with Ring show ?thesis by (auto simp: queued_tasks_def)
qed (simp_all add: queued_tasks_def)

lemma dequeue_ring_ok:
  assumes "dequeue_locked cfg s = (r, s')" "ring_ok s"
  shows "ring_ok s'"
  using assms
proof (cases rule: dequeue_elim)
  case (Emerg t q)
  with assms(2) show ?thesis by (simp add: ring_ok_def queue_of_def)
next
  case (Ring d rest t q)
  with assms(2) show ?thesis by (auto simp: ring_ok_def)
qed (use assms in simp)

lemma dequeue_queues_ok:
  assumes "dequeue_locked cfg s = (r, s')" "ring_ok s" "queues_ok cfg s"
  shows "queues_ok cfg s'"
  using assms(1,2)
proof (cases rule: dequeue_elim)
  case (Emerg t q)
  with assms(3) show ?thesis by (simp add: queues_ok_def queue_of_def)
next
  case (Ring d rest t q)
  then have "length q \<le> max_tasks_per_device cfg" "set q \<subseteq> set (queue_of s d)"
    using assms(3) by (auto simp: queues_ok_def dest: spec [of _ d])
  with assms(3) show ?thesis unfolding queues_ok_def Ring(5,6) by auto
qed (use assms in simp)

lemma dequeue_inv [inv_intros]:
  assumes "dequeue_locked cfg s = (r, s')" "scheduler_inv cfg s"
  shows "scheduler_inv cfg s'"
proof -
  have ro: "ring_ok s" and qo: "queues_ok cfg s" and co: "counts_ok cfg s"
    using assms(2) by (simp_all add: scheduler_inv_def)
  have size: "size (queued_tasks s) = size (queued_tasks s') + (case r of Some t \<Rightarrow> 1 | None \<Rightarrow> 0)"
    using dequeue_queued_tasks [OF assms(1) ro] by (simp split: option.splits)
  have "counts_ok cfg s'"
    using assms(1) ro
  proof (cases rule: dequeue_elim)
    case (Emerg t q)
    with co show ?thesis by (auto simp: counts_ok_def ring_load_def queue_of_def)
  next
    case (Ring d rest t q)
    with co size show ?thesis
      by (auto simp: counts_ok_def size_queued_tasks quantum_def)
  qed (use co in simp)
  with dequeue_ring_ok [OF assms(1) ro] dequeue_queues_ok [OF assms(1) ro qo]
  show ?thesis by (simp add: scheduler_inv_def)
qed

lemma dequeue_none_iff:
  assumes "dequeue_locked cfg s = (r, s')" "ring_ok s"
  shows "r = None \<longleftrightarrow> queued_tasks s = {#}"
  using assms
  by (cases rule: dequeue_elim) (auto simp: queued_tasks_def)

lemma try_dequeue_locked:
  assumes "counts_ok cfg s"
  shows "try_dequeue cfg s = dequeue_locked cfg s \<or>
    (try_dequeue cfg s = (None, s) \<and> queued_tasks s = {#})"
proof (cases "total_tasks_count s = 0")
  case True
  with assms have "size (queued_tasks s) = 0" by (simp add: counts_ok_def size_queued_tasks)
  with True show ?thesis by (simp add: try_dequeue_def)
qed (simp add: try_dequeue_def)

section \<open>Draining, clearing and shutting down\<close>

lemma drain_queued_tasks:
  assumes "drain_device_queue d s = (ts, s')" "ring_ok s"
  shows "queued_tasks s = queued_tasks s' + mset ts"
proof -
  let ?ds = "active_device_ring s" and ?rest = "filter (\<lambda>x. x \<noteq> d) (active_device_ring s)"
  let ?E = "emergency_queue s"
  have q': "queue_of s' = (queue_of s)(d := [])" and e': "emergency_queue s' = filter (\<lambda>t. task_recipient_device_id t \<noteq> d) ?E"
    and r': "active_device_ring s' = ?rest"
    and ts: "ts = queue_of s d @ filter (\<lambda>t. task_recipient_device_id t = d) ?E"
    using assms(1) by (auto simp: drain_device_queue_def Let_def queue_of_def fun_eq_iff)
  have "(\<Sum>x\<leftarrow>?ds. mset (queue_of s x)) = mset (queue_of s d) + (\<Sum>x\<leftarrow>?rest. mset (queue_of s x))"
  proof (cases "d \<in> set ?ds")
    case True
    with assms(2) show ?thesis by (intro sum_list_filter_neq) (simp_all add: ring_ok_def)
  next
    case False
    with assms(2) have "queue_of s d = []" by (auto simp: ring_ok_def)
    with False show ?thesis by simp
  qed
  moreover have "(\<Sum>x\<leftarrow>?rest. mset (queue_of s' x)) = (\<Sum>x\<leftarrow>?rest. mset (queue_of s x))"
    by (rule sum_list_change_none [where d = d]) (auto simp: q')
  moreover have "mset ?E = mset (filter (\<lambda>t. task_recipient_device_id t = d) ?E)
      + mset (filter (\<lambda>t. task_recipient_device_id t \<noteq> d) ?E)"
    by (simp add: multiset_partition [symmetric])
  ultimately show ?thesis by (simp add: queued_tasks_def e' r' ts)
qed

lemma drain_inv [inv_intros]:
  assumes "drain_device_queue d s = (ts, s')" "scheduler_inv cfg s"
  shows "scheduler_inv cfg s'"
proof -
  have ro: "ring_ok s" and qo: "queues_ok cfg s" and co: "counts_ok cfg s"
    using assms(2) by (simp_all add: scheduler_inv_def)
  have q': "queue_of s' = (queue_of s)(d := [])"
    and e': "emergency_queue s' = filter (\<lambda>t. task_recipient_device_id t \<noteq> d) (emergency_queue s)"
    and r': "active_device_ring s' = filter (\<lambda>x. x \<noteq> d) (active_device_ring s)"
    and a': "active_device_set s' = active_device_set s - {d}"
    and t': "total_tasks_count s' = total_tasks_count s - length ts"
    and c': "current_device_quanta_consumed s' = (case active_device_ring s of
          [] \<Rightarrow> current_device_quanta_consumed s
        | x # _ \<Rightarrow> if x = d then 0 else current_device_quanta_consumed s)"
    using assms(1) by (auto simp: drain_device_queue_def Let_def queue_of_def fun_eq_iff)
  have sz: "size (queued_tasks s) = size (queued_tasks s') + length ts"
    using drain_queued_tasks [OF assms(1) ro] by simp
  have "ring_load s' \<le> ring_load s"
  proof -
    have "(\<Sum>x\<leftarrow>filter (\<lambda>x. x \<noteq> d) ds. length (queue_of s' x)) \<le> (\<Sum>x\<leftarrow>ds. length (queue_of s x))" for ds
      by (induction ds) (auto simp: q')
    then show ?thesis by (simp add: ring_load_def r')
  qed
  moreover have "current_device_quanta_consumed s' < quantum cfg"
    using co by (auto simp: c' counts_ok_def quantum_def split: list.splits)
  moreover have "active_device_ring s' = [] \<longrightarrow> current_device_quanta_consumed s' = 0"
    using co by (auto simp: c' r' counts_ok_def split: list.splits if_splits)
  ultimately have "counts_ok cfg s'"
    using co sz by (auto simp: counts_ok_def size_queued_tasks t')
  moreover have "ring_ok s'" using ro by (auto simp: ring_ok_def q' a' r')
  moreover have "queues_ok cfg s'" using qo by (auto simp: queues_ok_def q' e')
  ultimately show ?thesis by (simp add: scheduler_inv_def)
qed

lemma clear_inv [inv_intros]: "scheduler_inv cfg (clear_scheduler s)"
  by (simp add: scheduler_inv_defs clear_scheduler_def queue_of_def quantum_def)

lemma shutdown_inv [inv_intros]: "scheduler_inv cfg s \<Longrightarrow> scheduler_inv cfg (shutdown_scheduler s)"
  by (simp add: scheduler_inv_defs shutdown_scheduler_def queue_of_def)

section \<open>The scheduler as a bounded queue\<close>

text \<open>A submission carries the clock reading at which \<open>schedule\<close> runs.\<close>

definition submit ::
    "scheduler_config \<Rightarrow> time_point \<times> delivery_task \<Rightarrow> scheduler \<Rightarrow> bool \<times> scheduler" where
  "submit cfg e s = (case schedule cfg (fst e) (snd e) s of (st, s') \<Rightarrow> (st = Enqueued, s'))"

lemma try_dequeue_inv [inv_intros]:
  assumes "try_dequeue cfg s = (r, s')" "scheduler_inv cfg s"
  shows "scheduler_inv cfg s'"
  using assms dequeue_inv by (auto simp: try_dequeue_def split: if_splits)

lemma try_dequeue_queued_tasks:
  assumes "try_dequeue cfg s = (r, s')" "scheduler_inv cfg s"
  shows "queued_tasks s = queued_tasks s' + (case r of Some t \<Rightarrow> {#t#} | None \<Rightarrow> {#})"
    and "r = None \<Longrightarrow> queued_tasks s = {#}"
proof -
  have "ring_ok s" "counts_ok cfg s" using assms(2) by (simp_all add: scheduler_inv_def)
  then show "queued_tasks s = queued_tasks s' + (case r of Some t \<Rightarrow> {#t#} | None \<Rightarrow> {#})"
    and "r = None \<Longrightarrow> queued_tasks s = {#}"
    using try_dequeue_locked [of cfg s] assms(1)
      dequeue_queued_tasks [of cfg s r s'] dequeue_none_iff [of cfg s r s'] by auto
qed

interpretation sched_queue: bounded_queue
  "scheduler_inv cfg" queued_tasks snd
  "max_global_queued_tasks cfg + emergency_queue_reserved_slots cfg" "submit cfg" "try_dequeue cfg"
  for cfg
proof unfold_locales
  fix s s' e ok
  assume inv: "scheduler_inv cfg s" and p: "submit cfg e s = (ok, s')"
  then obtain st where st: "schedule cfg (fst e) (snd e) s = (st, s')" "ok = (st = Enqueued)"
    by (auto simp: submit_def split: prod.splits)
  show "scheduler_inv cfg s'" using schedule_inv [OF st(1) inv] .
  show "queued_tasks s' = queued_tasks s + (if ok then {#snd e#} else {#})"
    using schedule_queued_tasks [OF st(1)] inv st(2) by (simp add: scheduler_inv_def)
next
  fix s s' r
  assume inv: "scheduler_inv cfg s" and g: "try_dequeue cfg s = (r, s')"
  show "scheduler_inv cfg s'" using try_dequeue_inv [OF g inv] .
  show "queued_tasks s = queued_tasks s' + (case r of None \<Rightarrow> {#} | Some a \<Rightarrow> {#a#})"
    using try_dequeue_queued_tasks(1) [OF g inv] by (simp split: option.splits)
next
  fix s s'
  assume "scheduler_inv cfg s" "try_dequeue cfg s = (None, s')"
  then show "queued_tasks s = {#}" using try_dequeue_queued_tasks(2) by blast
next
  fix s
  assume "scheduler_inv cfg s"
  then show "size (queued_tasks s) \<le> max_global_queued_tasks cfg + emergency_queue_reserved_slots cfg"
    by (simp add: scheduler_inv_def counts_ok_def size_queued_tasks)
qed

section \<open>Every interleaving of the public operations\<close>

inductive scheduler_step :: "scheduler_config \<Rightarrow> scheduler \<Rightarrow> scheduler \<Rightarrow> bool" for cfg where
  step_schedule: "schedule cfg now t s = (st, s') \<Longrightarrow> scheduler_step cfg s s'"
| step_try_dequeue: "try_dequeue cfg s = (r, s') \<Longrightarrow> scheduler_step cfg s s'"
| step_dequeue: "dequeue cfg timeout s = Returned (r, s') \<Longrightarrow> scheduler_step cfg s s'"
| step_drain: "drain_device_queue d s = (ts, s') \<Longrightarrow> scheduler_step cfg s s'"
| step_purge: "purge_device_tasks d s = (n, s') \<Longrightarrow> scheduler_step cfg s s'"
| step_clear: "scheduler_step cfg s (clear_scheduler s)"
| step_shutdown: "scheduler_step cfg s (shutdown_scheduler s)"

lemma scheduler_step_inv:
  assumes "scheduler_step cfg s s'" "scheduler_inv cfg s"
  shows "scheduler_inv cfg s'"
  using assms
proof (cases rule: scheduler_step.cases)
  case (step_dequeue timeout r)
  then have "s' = s \<or> dequeue_locked cfg s = (r, s')"
    by (auto simp: dequeue_def Let_def split: if_splits)
  with assms(2) show ?thesis by (auto intro: dequeue_inv)
next
  case (step_purge d n)
  then obtain ts where "drain_device_queue d s = (ts, s')"
    by (auto simp: purge_device_tasks_def split: prod.splits)
  with assms(2) show ?thesis by (auto intro: drain_inv)
qed (use assms(2) in \<open>auto intro: inv_intros\<close>)

lemma scheduler_reachable_inv:
  "(scheduler_step cfg)\<^sup>*\<^sup>* new_scheduler s \<Longrightarrow> scheduler_inv cfg s"
  by (induction rule: rtranclp_induct) (auto intro: new_scheduler_inv scheduler_step_inv)

section \<open>Order and fairness\<close>

definition device_traffic :: "device_id \<Rightarrow> delivery_task \<Rightarrow> bool" where
  "device_traffic d t = (task_recipient_device_id t = d \<and> task_priority t \<noteq> Emergency)"

lemma submit_queue_of:
  assumes "submit cfg e s = (ok, s')"
  shows "queue_of s' d = queue_of s d @ (if ok \<and> device_traffic d (snd e) then [snd e] else [])"
proof -
  from assms obtain st where st: "schedule cfg (fst e) (snd e) s = (st, s')" "ok = (st = Enqueued)"
    by (auto simp: submit_def split: prod.splits)
  from st(1) show ?thesis
    by (cases rule: schedule_elim) (auto simp: st(2) device_traffic_def queue_of_def)
qed

lemma try_dequeue_queue_of:
  assumes "try_dequeue cfg s = (r, s')" "scheduler_inv cfg s"
  shows "queue_of s d = (case r of Some t \<Rightarrow> if device_traffic d t then [t] else [] | None \<Rightarrow> [])
           @ queue_of s' d"
proof (cases "try_dequeue cfg s = dequeue_locked cfg s")
  case True
  with assms have dl: "dequeue_locked cfg s = (r, s')" and ro: "ring_ok s" and qo: "queues_ok cfg s"
    by (simp_all add: scheduler_inv_def)
  from dl ro show ?thesis
  proof (cases rule: dequeue_elim)
    case (Emerg t q)
    with qo show ?thesis by (simp add: queues_ok_def device_traffic_def queue_of_def)
  next
    case (Ring d' rest t q)
    then have "task_recipient_device_id t = d'" "task_priority t \<noteq> Emergency"
      using qo by (auto simp: queues_ok_def dest: spec [of _ d'])
    with Ring show ?thesis by (auto simp: device_traffic_def)
  qed simp
next
  case False
  with assms have "r = None" "s' = s" by (auto simp: try_dequeue_def split: if_splits)
  then show ?thesis by simp
qed

lemma device_fifo_run:
  assumes "scheduler_inv cfg s" "run_queue (submit cfg) (try_dequeue cfg) ops s = (acc, out, s')"
  shows "queue_of s d @ filter (device_traffic d) (map snd acc)
           = filter (device_traffic d) out @ queue_of s' d"
  using assms
proof (induction ops arbitrary: s acc out s')
  case (Cons p ops)
  show ?case
  proof (cases p)
    case (Put e)
    obtain ok s1 where p1: "submit cfg e s = (ok, s1)" by fastforce
    obtain acc1 out1 s2 where r1: "run_queue (submit cfg) (try_dequeue cfg) ops s1 = (acc1, out1, s2)"
      by (rule prod_cases3)
    from Cons.IH [OF sched_queue.put_inv [OF Cons.prems(1) p1] r1] submit_queue_of [OF p1, of d]
    show ?thesis using Cons.prems(2) Put p1 r1 by (auto split: if_splits)
  next
    case Take
    obtain r s1 where g1: "try_dequeue cfg s = (r, s1)" by fastforce
    obtain acc1 out1 s2 where r1: "run_queue (submit cfg) (try_dequeue cfg) ops s1 = (acc1, out1, s2)"
      by (rule prod_cases3)
    from Cons.IH [OF try_dequeue_inv [OF g1 Cons.prems(1)] r1]
      try_dequeue_queue_of [OF g1 Cons.prems(1), of d]
    show ?thesis using Cons.prems(2) Take g1 r1 by (auto split: option.splits)
  qed
qed simp

text \<open>A device behind \<open>pre\<close> in the ring waits for at most a quantum of each
  device before it, less what the front device has already used.\<close>

definition turns_before :: "scheduler_config \<Rightarrow> scheduler \<Rightarrow> device_id list \<Rightarrow> nat" where
  "turns_before cfg s pre =
     length pre * quantum cfg - (if pre = [] then 0 else current_device_quanta_consumed s)"

lemma dequeue_turn:
  assumes "try_dequeue cfg s = (r, s')" "scheduler_inv cfg s" "emergency_queue s = []"
    and "active_device_ring s = pre @ d # post"
  shows "(\<exists>t. r = Some t \<and> task_recipient_device_id t = d) \<or>
    (\<exists>pre' post'. active_device_ring s' = pre' @ d # post' \<and> turns_before cfg s' pre' < turns_before cfg s pre)"
proof -
  have ro: "ring_ok s" and qo: "queues_ok cfg s" and co: "counts_ok cfg s"
    using assms(2) by (simp_all add: scheduler_inv_def)
  have "queue_of s d \<noteq> []" using ro assms(4) by (auto simp: ring_ok_def)
  then have "queued_tasks s \<noteq> {#}" using assms(4) by (auto simp: queued_tasks_def)
  then have dl: "dequeue_locked cfg s = (r, s')" using try_dequeue_locked [OF co] assms(1) by auto
  from dl ro show ?thesis
  proof (cases rule: dequeue_elim)
    case (Ring d' rest t q)
    then have rt: "task_recipient_device_id t = d'"
      using qo by (auto simp: queues_ok_def dest: spec [of _ d'])
    show ?thesis
    proof (cases pre)
      case Nil
      with Ring assms(4) rt show ?thesis by simp
    next
      case (Cons p pre0)
      with Ring assms(4) have p: "d' = p" "rest = pre0 @ d # post" by auto
      have cq: "current_device_quanta_consumed s < quantum cfg" using co by (simp add: counts_ok_def)
      consider "active_device_ring s' = pre0 @ d # post" "current_device_quanta_consumed s' = 0"
        | "active_device_ring s' = pre0 @ d # (post @ [d'])" "current_device_quanta_consumed s' = 0"
        | "active_device_ring s' = pre @ d # post"
          "current_device_quanta_consumed s' = Suc (current_device_quanta_consumed s)"
          "Suc (current_device_quanta_consumed s) < quantum cfg"
        using Ring p Cons cq by (fastforce simp: quantum_def split: if_splits)
      then show ?thesis
        using cq Cons by cases (fastforce simp: turns_before_def)+
    qed
  qed (use assms in auto)
qed

lemma submit_turn:
  assumes "submit cfg e s = (ok, s')" "task_priority (snd e) \<noteq> Emergency" "scheduler_inv cfg s"
    and "emergency_queue s = []" "active_device_ring s = pre @ d # post"
  shows "emergency_queue s' = []"
    and "\<exists>post'. active_device_ring s' = pre @ d # post' \<and> turns_before cfg s' pre = turns_before cfg s pre"
proof -
  from assms(1) obtain st where st: "schedule cfg (fst e) (snd e) s = (st, s')"
    by (auto simp: submit_def split: prod.splits)
  have "emergency_queue s' = [] \<and> (\<exists>post'. active_device_ring s' = pre @ d # post'
      \<and> turns_before cfg s' pre = turns_before cfg s pre)"
    using st by (cases rule: schedule_elim) (use assms in \<open>auto simp: turns_before_def\<close>)
  then show "emergency_queue s' = []"
    and "\<exists>post'. active_device_ring s' = pre @ d # post' \<and> turns_before cfg s' pre = turns_before cfg s pre"
    by auto
qed

lemma try_dequeue_no_emergency:
  assumes "try_dequeue cfg s = (r, s')" "scheduler_inv cfg s" "emergency_queue s = []"
  shows "emergency_queue s' = []"
proof -
  have "s' = s \<or> dequeue_locked cfg s = (r, s')"
    using assms(1) by (auto simp: try_dequeue_def split: if_splits)
  then show ?thesis
  proof
    assume "dequeue_locked cfg s = (r, s')"
    moreover have "ring_ok s" using assms(2) by (simp add: scheduler_inv_def)
    ultimately show ?thesis by (cases rule: dequeue_elim) (use assms(3) in auto)
  qed (use assms(3) in simp)
qed

definition takes :: "'e queue_op list \<Rightarrow> nat" where
  "takes ops = length (filter (\<lambda>p. p = Take) ops)"

definition no_emergency :: "(time_point \<times> delivery_task) queue_op list \<Rightarrow> bool" where
  "no_emergency ops = (\<forall>e. Put e \<in> set ops \<longrightarrow> task_priority (snd e) \<noteq> Emergency)"

lemma fair_run:
  assumes "scheduler_inv cfg s" "emergency_queue s = []" "active_device_ring s = pre @ d # post"
    and "no_emergency ops" "turns_before cfg s pre < takes ops"
    and "run_queue (submit cfg) (try_dequeue cfg) ops s = (acc, out, s')"
  shows "\<exists>t \<in> set out. task_recipient_device_id t = d"
  using assms
proof (induction ops arbitrary: s pre post acc out s')
  case (Cons p ops)
  have ne: "no_emergency ops" using Cons.prems(4) by (simp add: no_emergency_def)
  show ?case
  proof (cases p)
    case (Put e)
    with Cons.prems(4) have pe: "task_priority (snd e) \<noteq> Emergency"
      by (cases e) (auto simp: no_emergency_def)
    obtain ok s1 where p1: "submit cfg e s = (ok, s1)" by fastforce
    obtain acc1 out1 s2 where r1: "run_queue (submit cfg) (try_dequeue cfg) ops s1 = (acc1, out1, s2)"
      by (rule prod_cases3)
    obtain post' where post': "active_device_ring s1 = pre @ d # post'"
        "turns_before cfg s1 pre = turns_before cfg s pre"
      using submit_turn(2) [OF p1 pe Cons.prems(1-3)] by blast
    have "\<exists>t \<in> set out1. task_recipient_device_id t = d"
      using Cons.prems(5) Put post'
      by (intro Cons.IH [OF sched_queue.put_inv [OF Cons.prems(1) p1]
            submit_turn(1) [OF p1 pe Cons.prems(1-3)] post'(1) ne _ r1]) (simp add: takes_def)
    then show ?thesis using Cons.prems(6) Put p1 r1 by (auto split: if_splits)
  next
    case Take
    obtain r s1 where g1: "try_dequeue cfg s = (r, s1)" by fastforce
    obtain acc1 out1 s2 where r1: "run_queue (submit cfg) (try_dequeue cfg) ops s1 = (acc1, out1, s2)"
      by (rule prod_cases3)
    from dequeue_turn [OF g1 Cons.prems(1-3)] show ?thesis
    proof (elim disjE exE conjE)
      fix pre' post'
      assume ring: "active_device_ring s1 = pre' @ d # post'" and lt: "turns_before cfg s1 pre' < turns_before cfg s pre"
      have "\<exists>t \<in> set out1. task_recipient_device_id t = d"
        using Cons.prems(5) Take lt
        by (intro Cons.IH [OF try_dequeue_inv [OF g1 Cons.prems(1)]
              try_dequeue_no_emergency [OF g1 Cons.prems(1,2)] ring ne _ r1]) (simp add: takes_def)
      then show ?thesis using Cons.prems(6) Take g1 r1 by (auto split: option.splits)
    qed (use Cons.prems(6) Take g1 r1 in \<open>auto split: option.splits\<close>)
  qed
qed (simp add: takes_def)

lemma submit_emergency:
  assumes "submit cfg e s = (ok, s')"
  shows "emergency_queue s' =
    emergency_queue s @ (if ok \<and> task_priority (snd e) = Emergency then [snd e] else [])"
proof -
  from assms obtain st where st: "schedule cfg (fst e) (snd e) s = (st, s')" "ok = (st = Enqueued)"
    by (auto simp: submit_def split: prod.splits)
  from st(1) show ?thesis by (cases rule: schedule_elim) (auto simp: st(2))
qed

lemma try_dequeue_emergency:
  assumes "try_dequeue cfg s = (r, s')" "scheduler_inv cfg s"
  shows "emergency_queue s =
    (case r of Some t \<Rightarrow> if task_priority t = Emergency then [t] else [] | None \<Rightarrow> []) @ emergency_queue s'"
proof (cases "try_dequeue cfg s = dequeue_locked cfg s")
  case True
  with assms have dl: "dequeue_locked cfg s = (r, s')" and ro: "ring_ok s" and qo: "queues_ok cfg s"
    by (simp_all add: scheduler_inv_def)
  from dl ro show ?thesis
  proof (cases rule: dequeue_elim)
    case (Ring d' rest t q)
    then have "task_priority t \<noteq> Emergency" using qo by (auto simp: queues_ok_def dest: spec [of _ d'])
    with Ring show ?thesis by simp
  qed (use qo in \<open>auto simp: queues_ok_def\<close>)
next
  case False
  with assms have "r = None" "s' = s" by (auto simp: try_dequeue_def split: if_splits)
  then show ?thesis by simp
qed

lemma emergency_fifo_run:
  assumes "scheduler_inv cfg s" "run_queue (submit cfg) (try_dequeue cfg) ops s = (acc, out, s')"
  shows "emergency_queue s @ filter (\<lambda>t. task_priority t = Emergency) (map snd acc)
           = filter (\<lambda>t. task_priority t = Emergency) out @ emergency_queue s'"
  using assms
proof (induction ops arbitrary: s acc out s')
  case (Cons p ops)
  show ?case
  proof (cases p)
    case (Put e)
    obtain ok s1 where p1: "submit cfg e s = (ok, s1)" by fastforce
    obtain acc1 out1 s2 where r1: "run_queue (submit cfg) (try_dequeue cfg) ops s1 = (acc1, out1, s2)"
      by (rule prod_cases3)
    from Cons.IH [OF sched_queue.put_inv [OF Cons.prems(1) p1] r1] submit_emergency [OF p1]
    show ?thesis using Cons.prems(2) Put p1 r1 by (auto split: if_splits)
  next
    case Take
    obtain r s1 where g1: "try_dequeue cfg s = (r, s1)" by fastforce
    obtain acc1 out1 s2 where r1: "run_queue (submit cfg) (try_dequeue cfg) ops s1 = (acc1, out1, s2)"
      by (rule prod_cases3)
    from Cons.IH [OF try_dequeue_inv [OF g1 Cons.prems(1)] r1]
      try_dequeue_emergency [OF g1 Cons.prems(1)]
    show ?thesis using Cons.prems(2) Take g1 r1 by (auto split: option.splits)
  qed
qed simp

section \<open>Properties\<close>

text \<open>A device-to-device message of the examples below.\<close>

definition sample_task :: "byte \<Rightarrow> device_id \<Rightarrow> message_priority \<Rightarrow> delivery_task" where
  "sample_task n d p =
     \<lparr> task_message_id = n # replicate 15 1, task_conversation_id = replicate 16 1, task_recipient_device_id = d,
       task_recipient_user_id = ''u'', task_priority = p, task_attempt_count = 0, task_accepted_at = 0,
       task_scheduled_at = 0, task_expires_at = None,
       task_envelope = \<lparr> env_recipient_user_id = ''u'', env_recipient_device_id = d,
         env_protocol_version = V1_Signal_PQXDH_DoubleRatchet, env_algorithm = XChaCha20_Poly1305,
         env_ciphertext_blob = ''c'', env_ephemeral_public_key = [], env_iv = [], env_auth_tag = [],
         env_one_time_prekey_id = None \<rparr> \<rparr>"

definition small_config :: scheduler_config where
  "small_config = \<lparr> max_global_queued_tasks = 4, max_tasks_per_device = 2,
     emergency_queue_reserved_slots = 1, fairness_quanta_per_device = 2 \<rparr>"

text \<open>C1: whatever sequence of public operations runs, the task counter is the
  number of queued tasks, the global and the per-device ceilings hold, and the
  round-robin ring lists exactly the devices with queued work, each once.\<close>

theorem scheduler_bounded:
  assumes "(scheduler_step cfg)\<^sup>*\<^sup>* new_scheduler s"
  shows "global_queue_depth s = size (queued_tasks s)
    \<and> global_queue_depth s \<le> max_global_queued_tasks cfg + emergency_queue_reserved_slots cfg
    \<and> global_queue_depth s - emergency_queue_depth s \<le> max_global_queued_tasks cfg
    \<and> (\<forall>d. device_queue_depth d s \<le> max_tasks_per_device cfg)
    \<and> distinct (active_device_ring s)
    \<and> set (active_device_ring s) = {d. device_queue_depth d s > 0}
    \<and> active_device_count s = length (active_device_ring s)"
proof -
  have depth: "device_queue_depth d s = length (queue_of s d)" for d
    by (simp add: device_queue_depth_def queue_of_def split: option.splits)
  have "scheduler_inv cfg s" using scheduler_reachable_inv [OF assms] .
  then have ro: "ring_ok s" and qo: "queues_ok cfg s" and co: "counts_ok cfg s"
    by (simp_all add: scheduler_inv_def)
  then have "active_device_count s = length (active_device_ring s)"
    unfolding active_device_count_def ring_ok_def by (metis distinct_card)
  then show ?thesis using ro qo co
    by (auto simp: depth global_queue_depth_def emergency_queue_depth_def ring_ok_def
          queues_ok_def counts_ok_def size_queued_tasks)
qed

theorem scheduler_bounded_witness:
  "global_queue_depth (snd (schedule small_config 0 (sample_task 1 ''a'' Normal) new_scheduler))
     = size (queued_tasks (snd (schedule small_config 0 (sample_task 1 ''a'' Normal) new_scheduler)))
   \<and> global_queue_depth (snd (schedule small_config 0 (sample_task 1 ''a'' Normal) new_scheduler)) = 1"
proof -
  let ?s = "snd (schedule small_config 0 (sample_task 1 ''a'' Normal) new_scheduler)"
  have "scheduler_step small_config new_scheduler ?s"
    by (rule step_schedule [where st = "fst (schedule small_config 0 (sample_task 1 ''a'' Normal) new_scheduler)"]) simp
  then have "(scheduler_step small_config)\<^sup>*\<^sup>* new_scheduler ?s" by blast
  moreover have "global_queue_depth ?s = 1"
    by (simp add: global_queue_depth_def schedule_def small_config_def sample_task_def
        new_scheduler_def id_is_nil_def numeral_eq_Suc Let_def)
  ultimately show ?thesis using scheduler_bounded by blast
qed

text \<open>C2: over any sequence of submissions and polls the scheduler neither loses
  nor duplicates a task: what it handed out together with what it still holds is
  exactly what it accepted, and its backlog never exceeds its capacity.\<close>

theorem scheduler_conserves_tasks:
  "case run_queue (submit cfg) (try_dequeue cfg) ops new_scheduler of (accepted, handed_out, s) \<Rightarrow>
     mset handed_out + queued_tasks s = mset (map snd accepted)
     \<and> length accepted
         \<le> length handed_out + (max_global_queued_tasks cfg + emergency_queue_reserved_slots cfg)"
proof -
  obtain acc out s where r: "run_queue (submit cfg) (try_dequeue cfg) ops new_scheduler = (acc, out, s)"
    by (rule prod_cases3)
  have "queued_tasks new_scheduler = {#}" by (simp add: queued_tasks_def new_scheduler_def)
  with r sched_queue.run_conservation [OF new_scheduler_inv r] sched_queue.run_backlog(2) [OF new_scheduler_inv _ r]
  show ?thesis by simp
qed

text \<open>C3: delivery is first-in first-out per device, and for the emergency
  traffic as a whole: for every device the accepted ordinary tasks are, in their
  order of acceptance, the ones handed out followed by the ones still queued.\<close>

theorem scheduler_device_fifo:
  "case run_queue (submit cfg) (try_dequeue cfg) ops new_scheduler of (accepted, handed_out, s) \<Rightarrow>
     filter (device_traffic d) (map snd accepted)
       = filter (device_traffic d) handed_out @ opt_list (per_device_queues s d)
     \<and> filter (\<lambda>t. task_priority t = Emergency) (map snd accepted)
       = filter (\<lambda>t. task_priority t = Emergency) handed_out @ emergency_queue s"
proof -
  obtain acc out s where r: "run_queue (submit cfg) (try_dequeue cfg) ops new_scheduler = (acc, out, s)"
    by (rule prod_cases3)
  have "queue_of new_scheduler d = []" "emergency_queue new_scheduler = []"
    by (simp_all add: queue_of_def new_scheduler_def)
  with r device_fifo_run [OF new_scheduler_inv r, of d] emergency_fifo_run [OF new_scheduler_inv r]
  show ?thesis by (simp add: queue_of_def)
qed

text \<open>C4: round-robin fairness.  A device with queued work, in a reachable state
  with no emergency traffic, is served within a quantum of polls for each other
  active device plus one, whatever ordinary submissions are interleaved.\<close>

theorem scheduler_fair:
  assumes "(scheduler_step cfg)\<^sup>*\<^sup>* new_scheduler s" "emergency_queue s = []"
    and "device_queue_depth d s > 0" "no_emergency ops"
    and "(active_device_count s - 1) * max 1 (fairness_quanta_per_device cfg) < takes ops"
    and "run_queue (submit cfg) (try_dequeue cfg) ops s = (accepted, handed_out, s')"
  shows "\<exists>t \<in> set handed_out. task_recipient_device_id t = d"
proof -
  have inv: "scheduler_inv cfg s" using scheduler_reachable_inv [OF assms(1)] .
  then have ro: "ring_ok s" by (simp add: scheduler_inv_def)
  have "queue_of s d \<noteq> []" using assms(3) by (auto simp: device_queue_depth_def queue_of_def split: option.splits)
  then have "d \<in> set (active_device_ring s)" using ro by (simp add: ring_ok_def)
  then obtain pre post where ring: "active_device_ring s = pre @ d # post" by (meson split_list)
  have "active_device_count s = length (active_device_ring s)"
    using ro unfolding active_device_count_def ring_ok_def by (metis distinct_card)
  then have "length pre \<le> active_device_count s - 1" using ring by simp
  then have "length pre * quantum cfg \<le> (active_device_count s - 1) * quantum cfg" by (rule mult_le_mono1)
  moreover have "turns_before cfg s pre \<le> length pre * quantum cfg" by (simp add: turns_before_def)
  ultimately have "turns_before cfg s pre < takes ops"
    using assms(5) unfolding quantum_def by linarith
  from fair_run [OF inv assms(2) ring assms(4) this assms(6)] show ?thesis .
qed

definition two_device_state :: scheduler where
  "two_device_state = snd (schedule small_config 0 (sample_task 3 ''b'' Normal)
     (snd (schedule small_config 0 (sample_task 2 ''a'' Normal)
       (snd (schedule small_config 0 (sample_task 1 ''a'' Urgent) new_scheduler)))))"

lemmas scheduler_eval = schedule_def small_config_def sample_task_def new_scheduler_def id_is_nil_def
  numeral_eq_Suc Let_def

lemma two_device_state_eval:
  "two_device_state = \<lparr> is_shut_down = False, total_tasks_count = 3, emergency_queue = [],
     per_device_queues = [''a'' \<mapsto> [sample_task 1 ''a'' Urgent, sample_task 2 ''a'' Normal],
                          ''b'' \<mapsto> [sample_task 3 ''b'' Normal]],
     active_device_ring = [''a'', ''b''], active_device_set = {''b'', ''a''},
     current_device_quanta_consumed = 0 \<rparr>"
  by (simp add: two_device_state_def scheduler_eval)

lemma two_device_state_reachable: "(scheduler_step small_config)\<^sup>*\<^sup>* new_scheduler two_device_state"
proof -
  have "scheduler_step small_config s (snd (schedule small_config 0 t s))" for s t
    by (rule step_schedule [where st = "fst (schedule small_config 0 t s)"]) simp
  then show ?thesis unfolding two_device_state_def
    by (meson rtranclp.rtrancl_into_rtrancl rtranclp.rtrancl_refl)
qed

theorem scheduler_fair_witness:
  "\<exists>t \<in> set (fst (snd (run_queue (submit small_config) (try_dequeue small_config)
       [Take, Put (0, sample_task 4 ''c'' Urgent), Take, Take] two_device_state))).
     task_recipient_device_id t = ''b''"
proof -
  let ?ops = "[Take, Put (0, sample_task 4 ''c'' Urgent), Take, Take]"
  obtain acc out s' where r:
    "run_queue (submit small_config) (try_dequeue small_config) ?ops two_device_state = (acc, out, s')"
    by (rule prod_cases3)
  have "emergency_queue two_device_state = []" "device_queue_depth ''b'' two_device_state > 0"
    by (simp_all add: two_device_state_eval device_queue_depth_def)
  moreover have "no_emergency ?ops" by (auto simp: no_emergency_def sample_task_def)
  moreover have "(active_device_count two_device_state - 1)
      * max 1 (fairness_quanta_per_device small_config) < takes ?ops"
    by (simp add: active_device_count_def two_device_state_eval small_config_def takes_def)
  ultimately have "\<exists>t \<in> set out. task_recipient_device_id t = ''b''"
    using scheduler_fair [OF two_device_state_reachable _ _ _ _ r] by blast
  with r show ?thesis by simp
qed

end
