(* ===== verification/Delivery_State.thy ===== *)
theory Delivery_State
  imports Messaging_Types
begin

text \<open>
  The delivery life cycle of messaging: the states of a message on a recipient
  device, their protobuf image, \<open>DeliveryStateTransitionGuard\<close>, the conversions
  of \<open>delivery_lifecycle.cpp\<close>, the retry eligibility of \<open>DeliveryRetryPolicy\<close>
  and the connection state machine of \<open>connection_session.hpp\<close>.  A failed
  \<open>ServiceResult\<close> is its error code; the human-readable text is dropped.
\<close>

section \<open>Service results\<close>

datatype messaging_error =
    ERR_UNSPECIFIED | ERR_CONVERSATION_NOT_FOUND | ERR_NOT_A_PARTICIPANT | ERR_DEVICE_REVOKED
  | ERR_IDEMPOTENCY_CONFLICT | ERR_PAYLOAD_TOO_LARGE | ERR_QUEUE_CAPACITY_EXCEEDED
  | ERR_CURSOR_OUT_OF_BOUNDS | ERR_INVALID_TARGET_DEVICE | ERR_MESSAGE_EXPIRED

type_synonym 'a service_result = "messaging_error + 'a"

section \<open>Delivery states\<close>

datatype delivery_state = Queued | Delivering | Delivered | Read | RetryWait | Expired

definition delivery_state_to_string :: "delivery_state \<Rightarrow> string" where
  "delivery_state_to_string st = (case st of
       Queued \<Rightarrow> ''QUEUED'' | Delivering \<Rightarrow> ''DELIVERING'' | Delivered \<Rightarrow> ''DELIVERED''
     | Read \<Rightarrow> ''READ'' | RetryWait \<Rightarrow> ''RETRY_WAIT'' | Expired \<Rightarrow> ''EXPIRED'')"

definition delivery_state_from_string :: "string \<Rightarrow> delivery_state option" where
  "delivery_state_from_string sv =
    (if sv = ''QUEUED'' \<or> sv = ''PENDING'' then Some Queued
     else if sv = ''DELIVERING'' then Some Delivering
     else if sv = ''DELIVERED'' then Some Delivered
     else if sv = ''READ'' then Some Read
     else if sv = ''RETRY_WAIT'' then Some RetryWait
     else if sv = ''EXPIRED'' then Some Expired
     else None)"

datatype delivery_attempt_result = Success | RecipientOffline | TransientFailure | TerminalFailure

definition delivery_attempt_result_to_string :: "delivery_attempt_result \<Rightarrow> string" where
  "delivery_attempt_result_to_string r = (case r of
       Success \<Rightarrow> ''SUCCESS'' | RecipientOffline \<Rightarrow> ''RECIPIENT_OFFLINE''
     | TransientFailure \<Rightarrow> ''TRANSIENT_FAILURE'' | TerminalFailure \<Rightarrow> ''TERMINAL_FAILURE'')"

definition delivery_attempt_result_from_string :: "string \<Rightarrow> delivery_attempt_result option" where
  "delivery_attempt_result_from_string sv =
    (if sv = ''SUCCESS'' then Some Success
     else if sv = ''RECIPIENT_OFFLINE'' then Some RecipientOffline
     else if sv = ''TRANSIENT_FAILURE'' then Some TransientFailure
     else if sv = ''TERMINAL_FAILURE'' then Some TerminalFailure
     else None)"

text \<open>The generated protobuf enumeration is open: a peer may send any number.\<close>

datatype proto_delivery_state =
    P_UNSPECIFIED | P_QUEUED | P_DELIVERING | P_DELIVERED | P_READ | P_RETRY_WAIT | P_EXPIRED
  | P_UNRECOGNIZED int

section \<open>DeliveryStateTransitionGuard\<close>

definition can_transition :: "delivery_state \<Rightarrow> delivery_state \<Rightarrow> bool" where
  "can_transition current_state next_state = (case current_state of
       Queued \<Rightarrow> next_state = Delivering \<or> next_state = Expired
     | Delivering \<Rightarrow> next_state = Delivered \<or> next_state = RetryWait \<or> next_state = Expired
     | RetryWait \<Rightarrow> next_state = Delivering \<or> next_state = Expired
     | Delivered \<Rightarrow> next_state = Read
     | Read \<Rightarrow> False
     | Expired \<Rightarrow> False)"

definition can_transition_proto :: "proto_delivery_state \<Rightarrow> proto_delivery_state \<Rightarrow> bool" where
  "can_transition_proto current_state next_state = (case current_state of
       P_QUEUED \<Rightarrow> next_state = P_DELIVERING \<or> next_state = P_EXPIRED
     | P_DELIVERING \<Rightarrow> next_state = P_DELIVERED \<or> next_state = P_RETRY_WAIT \<or> next_state = P_EXPIRED
     | P_RETRY_WAIT \<Rightarrow> next_state = P_DELIVERING \<or> next_state = P_EXPIRED
     | P_DELIVERED \<Rightarrow> next_state = P_READ
     | P_READ \<Rightarrow> False
     | P_EXPIRED \<Rightarrow> False
     | P_UNSPECIFIED \<Rightarrow> False
     | P_UNRECOGNIZED n \<Rightarrow> False)"

definition is_regression :: "delivery_state \<Rightarrow> delivery_state \<Rightarrow> bool" where
  "is_regression current_state candidate_state =
    (if current_state = candidate_state then False
     else case current_state of
       Delivered \<Rightarrow> candidate_state = Queued \<or> candidate_state = Delivering \<or> candidate_state = RetryWait
     | Read \<Rightarrow> candidate_state = Delivered \<or> candidate_state = Delivering
         \<or> candidate_state = RetryWait \<or> candidate_state = Queued
     | Expired \<Rightarrow> candidate_state = Queued \<or> candidate_state = Delivering \<or> candidate_state = RetryWait
         \<or> candidate_state = Delivered \<or> candidate_state = Read
     | Delivering \<Rightarrow> candidate_state = Queued
     | RetryWait \<Rightarrow> candidate_state = Queued
     | Queued \<Rightarrow> False)"

definition is_regression_proto :: "proto_delivery_state \<Rightarrow> proto_delivery_state \<Rightarrow> bool" where
  "is_regression_proto current_state candidate_state =
    (if current_state = candidate_state then False
     else case current_state of
       P_DELIVERED \<Rightarrow> candidate_state = P_QUEUED \<or> candidate_state = P_DELIVERING
         \<or> candidate_state = P_RETRY_WAIT
     | P_READ \<Rightarrow> candidate_state = P_DELIVERED \<or> candidate_state = P_DELIVERING
         \<or> candidate_state = P_RETRY_WAIT \<or> candidate_state = P_QUEUED
     | P_EXPIRED \<Rightarrow> candidate_state = P_QUEUED \<or> candidate_state = P_DELIVERING
         \<or> candidate_state = P_RETRY_WAIT \<or> candidate_state = P_DELIVERED \<or> candidate_state = P_READ
     | P_DELIVERING \<Rightarrow> candidate_state = P_QUEUED
     | P_RETRY_WAIT \<Rightarrow> candidate_state = P_QUEUED
     | P_QUEUED \<Rightarrow> False
     | P_UNSPECIFIED \<Rightarrow> False
     | P_UNRECOGNIZED n \<Rightarrow> False)"

definition is_idempotent :: "delivery_state \<Rightarrow> delivery_state \<Rightarrow> bool" where
  "is_idempotent current_state candidate_state = (current_state = candidate_state)"

definition is_idempotent_proto :: "proto_delivery_state \<Rightarrow> proto_delivery_state \<Rightarrow> bool" where
  "is_idempotent_proto current_state candidate_state =
     (current_state = candidate_state \<and> current_state \<noteq> P_UNSPECIFIED)"

definition is_terminal :: "delivery_state \<Rightarrow> bool" where
  "is_terminal st = (st = Delivered \<or> st = Read \<or> st = Expired)"

definition is_terminal_proto :: "proto_delivery_state \<Rightarrow> bool" where
  "is_terminal_proto st = (st = P_DELIVERED \<or> st = P_READ \<or> st = P_EXPIRED)"

definition validate_transition :: "delivery_state \<Rightarrow> delivery_state \<Rightarrow> unit service_result" where
  "validate_transition current_state next_state =
    (if is_idempotent current_state next_state then Inr ()
     else if current_state = Expired then Inl ERR_MESSAGE_EXPIRED
     else if is_regression current_state next_state then Inl ERR_UNSPECIFIED
     else if \<not> can_transition current_state next_state then Inl ERR_UNSPECIFIED
     else Inr ())"

definition validate_transition_proto ::
    "proto_delivery_state \<Rightarrow> proto_delivery_state \<Rightarrow> unit service_result" where
  "validate_transition_proto current_state next_state =
    (if is_idempotent_proto current_state next_state then Inr ()
     else if current_state = P_EXPIRED then Inl ERR_MESSAGE_EXPIRED
     else if is_regression_proto current_state next_state then Inl ERR_UNSPECIFIED
     else if \<not> can_transition_proto current_state next_state then Inl ERR_UNSPECIFIED
     else Inr ())"

datatype read_state = RS_Unread | RS_Read

definition read_state_to_string :: "read_state \<Rightarrow> string" where
  "read_state_to_string st = (case st of RS_Unread \<Rightarrow> ''UNREAD'' | RS_Read \<Rightarrow> ''READ'')"

definition read_state_from_string :: "string \<Rightarrow> read_state option" where
  "read_state_from_string sv =
    (if sv = ''UNREAD'' then Some RS_Unread else if sv = ''READ'' then Some RS_Read else None)"

definition can_transition_read :: "read_state \<Rightarrow> read_state \<Rightarrow> bool" where
  "can_transition_read current_state next_state =
     (case current_state of RS_Unread \<Rightarrow> next_state = RS_Read | RS_Read \<Rightarrow> False)"

definition is_read_idempotent :: "read_state \<Rightarrow> read_state \<Rightarrow> bool" where
  "is_read_idempotent current_state candidate_state = (current_state = candidate_state)"

definition is_read_regression :: "read_state \<Rightarrow> read_state \<Rightarrow> bool" where
  "is_read_regression current_state candidate_state =
     (current_state = RS_Read \<and> candidate_state = RS_Unread)"

definition validate_read_transition :: "read_state \<Rightarrow> read_state \<Rightarrow> unit service_result" where
  "validate_read_transition current_state next_state =
    (if is_read_idempotent current_state next_state then Inr ()
     else if is_read_regression current_state next_state then Inl ERR_UNSPECIFIED
     else if \<not> can_transition_read current_state next_state then Inl ERR_UNSPECIFIED
     else Inr ())"

section \<open>Conversions and limits\<close>

definition to_proto_delivery_state :: "delivery_state \<Rightarrow> proto_delivery_state" where
  "to_proto_delivery_state st = (case st of
       Queued \<Rightarrow> P_QUEUED | Delivering \<Rightarrow> P_DELIVERING | Delivered \<Rightarrow> P_DELIVERED
     | Read \<Rightarrow> P_READ | RetryWait \<Rightarrow> P_RETRY_WAIT | Expired \<Rightarrow> P_EXPIRED)"

definition from_proto_delivery_state :: "proto_delivery_state \<Rightarrow> delivery_state option" where
  "from_proto_delivery_state st = (case st of
       P_QUEUED \<Rightarrow> Some Queued | P_DELIVERING \<Rightarrow> Some Delivering | P_DELIVERED \<Rightarrow> Some Delivered
     | P_READ \<Rightarrow> Some Read | P_RETRY_WAIT \<Rightarrow> Some RetryWait | P_EXPIRED \<Rightarrow> Some Expired
     | P_UNSPECIFIED \<Rightarrow> None | P_UNRECOGNIZED n \<Rightarrow> None)"

definition is_valid_sequence :: "int \<Rightarrow> bool" where
  "is_valid_sequence sequence = (sequence \<ge> 0)"

definition is_valid_cursor_progression :: "int \<Rightarrow> int \<Rightarrow> bool" where
  "is_valid_cursor_progression current_sequence new_sequence =
     (is_valid_sequence new_sequence \<and> new_sequence > current_sequence)"

definition is_valid_page_limit :: "u32 \<Rightarrow> bool" where
  "is_valid_page_limit limit = (limit \<ge> 1 \<and> limit \<le> 100)"

definition sanitize_page_limit :: "u32 \<Rightarrow> u32" where
  "sanitize_page_limit requested_limit = (if requested_limit = 0 then 50 else min requested_limit 100)"

section \<open>Retry eligibility\<close>

definition delivery_is_retryable ::
    "int \<Rightarrow> delivery_attempt_result \<Rightarrow> int \<Rightarrow> time_point option \<Rightarrow> time_point \<Rightarrow> bool" where
  "delivery_is_retryable max_retry_attempts result attempt_count expires_at now =
    (if result = Success \<or> result = TerminalFailure then False
     else if attempt_count \<ge> max_retry_attempts then False
     else if (case expires_at of Some e \<Rightarrow> now \<ge> e | None \<Rightarrow> False) then False
     else True)"

section \<open>Connection states\<close>

datatype connection_state = Connecting | Conn_Active | Stale | Terminated

definition is_valid_connection_transition :: "connection_state \<Rightarrow> connection_state \<Rightarrow> bool" where
  "is_valid_connection_transition from to = (case from of
       Connecting \<Rightarrow> to = Conn_Active \<or> to = Terminated
     | Conn_Active \<Rightarrow> to = Stale \<or> to = Terminated
     | Stale \<Rightarrow> to = Conn_Active \<or> to = Terminated
     | Terminated \<Rightarrow> False)"

definition connection_state_to_string :: "connection_state \<Rightarrow> string" where
  "connection_state_to_string st = (case st of
       Connecting \<Rightarrow> ''CONNECTING'' | Conn_Active \<Rightarrow> ''ACTIVE'' | Stale \<Rightarrow> ''STALE''
     | Terminated \<Rightarrow> ''TERMINATED'')"

definition parse_connection_state :: "string \<Rightarrow> connection_state option" where
  "parse_connection_state sv =
    (if sv = ''CONNECTING'' \<or> sv = ''connecting'' then Some Connecting
     else if sv = ''ACTIVE'' \<or> sv = ''active'' then Some Conn_Active
     else if sv = ''STALE'' \<or> sv = ''stale'' then Some Stale
     else if sv = ''TERMINATED'' \<or> sv = ''terminated'' then Some Terminated
     else None)"

definition transition_to :: "connection_state \<Rightarrow> connection_state \<Rightarrow> bool \<times> connection_state" where
  "transition_to new_state st =
    (if \<not> is_valid_connection_transition st new_state then (False, st) else (True, new_state))"

section \<open>Lemmas\<close>

lemmas guard_defs = validate_transition_def is_idempotent_def is_regression_def can_transition_def
lemmas guard_proto_defs = validate_transition_proto_def is_idempotent_proto_def
  is_regression_proto_def can_transition_proto_def

text \<open>The states a record can pass through when every write goes through the guard.\<close>

inductive guarded_path :: "delivery_state \<Rightarrow> delivery_state \<Rightarrow> bool" where
  path_refl: "guarded_path st st"
| path_step: "guarded_path st st1 \<Longrightarrow> validate_transition st1 st2 = Inr () \<Longrightarrow> guarded_path st st2"

lemma validate_transition_iff:
  "validate_transition a b = Inr () \<longleftrightarrow> a = b \<or> can_transition a b"
  by (cases a; cases b) (simp_all add: guard_defs)

lemma guarded_path_terminal:
  assumes "guarded_path a b" "is_terminal a"
  shows "b = a \<or> (a = Delivered \<and> b = Read)"
  using assms
  by (induction rule: guarded_path.induct)
     (auto simp: validate_transition_iff can_transition_def is_terminal_def)

lemma guarded_path_reaches:
  "guarded_path Queued st"
proof -
  have d: "guarded_path Queued Delivering"
    by (rule path_step [OF path_refl]) (simp add: guard_defs)
  have e: "guarded_path Queued Delivered"
    by (rule path_step [OF d]) (simp add: guard_defs)
  have "guarded_path Queued Read" by (rule path_step [OF e]) (simp add: guard_defs)
  moreover have "guarded_path Queued RetryWait" by (rule path_step [OF d]) (simp add: guard_defs)
  moreover have "guarded_path Queued Expired" by (rule path_step [OF d]) (simp add: guard_defs)
  ultimately show ?thesis using d e path_refl by (cases st) auto
qed

section \<open>Properties\<close>

text \<open>C9: the guard makes the delivery life cycle monotone: once a record is
  delivered, read or expired, no sequence of guarded writes leaves the terminal
  states (the one move left is delivered to read), a guarded write never goes
  back to \<open>Queued\<close>, and every state can be reached from \<open>Queued\<close>.\<close>

theorem delivery_lifecycle_monotone:
  "(\<forall>b. guarded_path Delivered b \<longrightarrow> b = Delivered \<or> b = Read)
   \<and> (\<forall>b. guarded_path Read b \<longrightarrow> b = Read)
   \<and> (\<forall>b. guarded_path Expired b \<longrightarrow> b = Expired)
   \<and> (\<forall>a. guarded_path a Queued \<longrightarrow> a = Queued)
   \<and> (\<forall>b. guarded_path Queued b)"
proof -
  have "a = Queued" if "guarded_path a Queued" for a
  proof -
    have "b = Queued \<longrightarrow> a = Queued" if "guarded_path a b" for b
      using that by (induction rule: guarded_path.induct)
        (auto simp: validate_transition_iff can_transition_def split: delivery_state.splits)
    then show ?thesis using that by blast
  qed
  then show ?thesis
    using guarded_path_terminal guarded_path_reaches by (auto simp: is_terminal_def)
qed

theorem delivery_lifecycle_monotone_witness:
  "guarded_path Delivered Read \<and> \<not> guarded_path Delivered Queued \<and> \<not> guarded_path Expired Delivering"
proof -
  have "guarded_path Delivered Read" by (rule path_step [OF path_refl]) (simp add: guard_defs)
  then show ?thesis using delivery_lifecycle_monotone by blast
qed


text \<open>The textual forms round trip, for every delivery state, attempt
  result, read state and connection state.\<close>

theorem delivery_strings_round_trip:
  "delivery_state_from_string (delivery_state_to_string st) = Some st
   \<and> delivery_attempt_result_from_string (delivery_attempt_result_to_string r) = Some r
   \<and> read_state_from_string (read_state_to_string rs) = Some rs
   \<and> parse_connection_state (connection_state_to_string cs) = Some cs"
proof -
  have "delivery_state_from_string (delivery_state_to_string st) = Some st"
    by (cases st) (simp_all add: delivery_state_from_string_def delivery_state_to_string_def)
  moreover have "delivery_attempt_result_from_string (delivery_attempt_result_to_string r) = Some r"
    by (cases r) (simp_all add: delivery_attempt_result_from_string_def delivery_attempt_result_to_string_def)
  moreover have "read_state_from_string (read_state_to_string rs) = Some rs"
    by (cases rs) (simp_all add: read_state_from_string_def read_state_to_string_def)
  moreover have "parse_connection_state (connection_state_to_string cs) = Some cs"
    by (cases cs) (simp_all add: parse_connection_state_def connection_state_to_string_def)
  ultimately show ?thesis by simp
qed

end
