(* ===== verification/Connections.thy ===== *)
theory Connections
  imports Delivery_State "HOL-Library.AList"
begin

text \<open>
  \<open>DeviceConnectionRegistry\<close> and \<open>ConnectionLifecycleManager\<close>
  (\<open>src/src/messaging/delivery\<close>).  The hash maps are association lists with
  distinct keys, and their order is the iteration order.  A transport channel is
  its device, its user and a handle; whether it is still healthy is decided by
  the transport, a parameter \<open>active\<close> of the operations that ask.
\<close>

section \<open>DeviceConnectionRegistry\<close>

record channel =
  ch_device_id :: device_id
  ch_user_id :: user_id
  ch_handle :: nat

record channel_entry =
  entry_channel :: channel
  last_active_at :: time_point

record capacity_config =
  max_devices_per_user :: nat
  max_global_connections :: nat
  default_lease_timeout :: duration

record registry =
  channels :: "(device_id \<times> channel_entry) list"
  user_to_devices :: "(user_id \<times> device_id list) list"

datatype connection_error = ConnectionLimitExceeded | NullChannel

definition new_registry :: registry where
  "new_registry = \<lparr> channels = [], user_to_devices = [] \<rparr>"

text \<open>Removes a device from the list of a user and drops the list when it is
  empty; nothing happens when the user has no list.\<close>

definition erase_user_device ::
    "user_id \<Rightarrow> device_id \<Rightarrow> (user_id \<times> device_id list) list \<Rightarrow> (user_id \<times> device_id list) list" where
  "erase_user_device uid d u2d =
    (let devs = filter (\<lambda>x. x \<noteq> d) (opt_list (map_of u2d uid)) in
     if devs = [] then AList.delete uid u2d else AList.update uid devs u2d)"

definition store_channel :: "time_point \<Rightarrow> channel \<Rightarrow> registry \<Rightarrow> registry" where
  "store_channel now ch r =
    (let id = ch_device_id ch; uid = ch_user_id ch;
         devs = opt_list (map_of (user_to_devices r) uid)
     in r\<lparr> channels := AList.update id \<lparr> entry_channel = ch, last_active_at = now \<rparr> (channels r),
           user_to_devices := AList.update uid (if id \<in> set devs then devs else devs @ [id])
                                (user_to_devices r) \<rparr>)"

text \<open>The result is the exception, if one is thrown, the devices whose
  disconnect callbacks run, and the new state.\<close>

definition register_channel :: "capacity_config \<Rightarrow> time_point \<Rightarrow> channel option \<Rightarrow> registry
    \<Rightarrow> connection_error option \<times> device_id list \<times> registry" where
  "register_channel cfg now chan r = (case chan of
     None \<Rightarrow> (None, [], r)
   | Some ch \<Rightarrow>
      (let id = ch_device_id ch; uid = ch_user_id ch in
       case map_of (channels r) id of
         Some e \<Rightarrow>
          (let old_uid = ch_user_id (entry_channel e);
               r1 = (if old_uid \<noteq> uid
                     then r\<lparr> user_to_devices := erase_user_device old_uid id (user_to_devices r) \<rparr>
                     else r)
           in (None, [id], store_channel now ch r1))
       | None \<Rightarrow>
          (if max_global_connections cfg > 0 \<and> length (channels r) \<ge> max_global_connections cfg
           then (Some ConnectionLimitExceeded, [], r)
           else
            (let devs = opt_list (map_of (user_to_devices r) uid);
                 r1 = r\<lparr> user_to_devices := AList.update uid devs (user_to_devices r) \<rparr>
             in if max_devices_per_user cfg > 0 \<and> length devs \<ge> max_devices_per_user cfg
                then (Some ConnectionLimitExceeded, [], r1)
                else (None, [], store_channel now ch r1)))))"

definition drop_channel :: "device_id \<Rightarrow> channel_entry \<Rightarrow> registry \<Rightarrow> registry" where
  "drop_channel d e r =
     r\<lparr> user_to_devices := erase_user_device (ch_user_id (entry_channel e)) d (user_to_devices r),
        channels := AList.delete d (channels r) \<rparr>"

definition unregister_channel :: "device_id \<Rightarrow> registry \<Rightarrow> device_id list \<times> registry" where
  "unregister_channel d r = (case map_of (channels r) d of
       Some e \<Rightarrow> ([d], drop_channel d e r)
     | None \<Rightarrow> ([], r))"

definition user_device_count :: "user_id \<Rightarrow> registry \<Rightarrow> nat" where
  "user_device_count uid r =
     (case map_of (user_to_devices r) uid of Some devs \<Rightarrow> length devs | None \<Rightarrow> 0)"

definition get_channel ::
    "capacity_config \<Rightarrow> (channel \<Rightarrow> bool) \<Rightarrow> time_point \<Rightarrow> device_id \<Rightarrow> registry \<Rightarrow> channel option" where
  "get_channel cfg active now d r = (case map_of (channels r) d of
       None \<Rightarrow> None
     | Some e \<Rightarrow>
        if \<not> active (entry_channel e) then None
        else if default_lease_timeout cfg > 0 \<and> now - last_active_at e > default_lease_timeout cfg then None
        else Some (entry_channel e))"

definition is_online ::
    "capacity_config \<Rightarrow> (channel \<Rightarrow> bool) \<Rightarrow> time_point \<Rightarrow> device_id \<Rightarrow> registry \<Rightarrow> bool" where
  "is_online cfg active now d r = (get_channel cfg active now d r \<noteq> None)"

definition filter_online_devices ::
    "capacity_config \<Rightarrow> (channel \<Rightarrow> bool) \<Rightarrow> time_point \<Rightarrow> device_id list \<Rightarrow> registry \<Rightarrow> device_id list" where
  "filter_online_devices cfg active now ids r =
     filter (\<lambda>id. case map_of (channels r) id of
         Some e \<Rightarrow> active (entry_channel e) \<and>
           (default_lease_timeout cfg \<le> 0 \<or> now - last_active_at e \<le> default_lease_timeout cfg)
       | None \<Rightarrow> False) ids"

definition connected_device_count :: "registry \<Rightarrow> nat" where
  "connected_device_count r = length (channels r)"

definition touch_channel ::
    "(channel \<Rightarrow> bool) \<Rightarrow> time_point \<Rightarrow> device_id \<Rightarrow> registry \<Rightarrow> bool \<times> registry" where
  "touch_channel active now d r = (case map_of (channels r) d of
       Some e \<Rightarrow> if active (entry_channel e)
                 then (True, r\<lparr> channels := AList.update d (e\<lparr> last_active_at := now \<rparr>) (channels r) \<rparr>)
                 else (False, r)
     | None \<Rightarrow> (False, r))"

definition stale :: "(channel \<Rightarrow> bool) \<Rightarrow> time_point \<Rightarrow> duration \<Rightarrow> channel_entry \<Rightarrow> bool" where
  "stale active now limit e =
     (\<not> active (entry_channel e) \<or> (limit > 0 \<and> now - last_active_at e > limit))"

definition evict_stale_channels :: "capacity_config \<Rightarrow> (channel \<Rightarrow> bool) \<Rightarrow> time_point \<Rightarrow> duration
    \<Rightarrow> registry \<Rightarrow> device_id list \<times> registry" where
  "evict_stale_channels cfg active now max_idle r =
    (let limit = (if max_idle > 0 then max_idle else default_lease_timeout cfg);
         evicted = filter (\<lambda>(d, e). stale active now limit e) (channels r)
     in (map fst evicted, foldl (\<lambda>r (d, e). drop_channel d e r) r evicted))"

section \<open>ConnectionLifecycleManager\<close>

record device_connection =
  connection_id :: string
  conn_device_id :: device_id
  conn_user_id :: user_id
  client_ip :: string
  user_agent :: string
  protocol_version :: u32
  conn_state :: connection_state
  connected_at :: time_point
  last_heartbeat_at :: time_point
  auth_session_id :: "string option"

text \<open>The calls that the manager makes on the presence coordinator and on the
  connected callbacks, in order.\<close>

datatype lifecycle_event =
    OnDeviceConnected user_id device_id
  | OnDeviceDisconnected user_id device_id
  | OnDeviceHeartbeat user_id device_id
  | ConnectedCallbacks device_id user_id

record lifecycle =
  lc_registry :: registry
  lc_sessions :: "device_id \<rightharpoonup> device_connection"
  lc_events :: "lifecycle_event list"

definition new_lifecycle :: lifecycle where
  "new_lifecycle = \<lparr> lc_registry = new_registry, lc_sessions = Map.empty, lc_events = [] \<rparr>"

definition on_registry_disconnect :: "device_id \<Rightarrow> lifecycle \<Rightarrow> lifecycle" where
  "on_registry_disconnect d m = (case lc_sessions m d of
       Some c \<Rightarrow> m\<lparr> lc_sessions := (lc_sessions m)(d := None),
                   lc_events := lc_events m @ [OnDeviceDisconnected (conn_user_id c) d] \<rparr>
     | None \<Rightarrow> m)"

definition notify_disconnects :: "device_id list \<Rightarrow> lifecycle \<Rightarrow> lifecycle" where
  "notify_disconnects ds m = foldl (\<lambda>m d. on_registry_disconnect d m) m ds"

definition establish_connection :: "capacity_config \<Rightarrow> time_point \<Rightarrow> string \<Rightarrow> channel option
    \<Rightarrow> string \<Rightarrow> string \<Rightarrow> u32 \<Rightarrow> lifecycle \<Rightarrow> (connection_error + device_connection) \<times> lifecycle" where
  "establish_connection cfg now conn_id chan ip ua version m = (case chan of
     None \<Rightarrow> (Inl NullChannel, m)
   | Some ch \<Rightarrow>
      (case register_channel cfg now chan (lc_registry m) of (ex, ns, r') \<Rightarrow>
       (let m1 = notify_disconnects ns (m\<lparr> lc_registry := r' \<rparr>) in
        case ex of
          Some e \<Rightarrow> (Inl e, m1)
        | None \<Rightarrow>
           (let dev_id = ch_device_id ch; uid = ch_user_id ch;
                session = \<lparr> connection_id = conn_id, conn_device_id = dev_id, conn_user_id = uid,
                  client_ip = ip, user_agent = ua, protocol_version = version,
                  conn_state = Conn_Active, connected_at = now, last_heartbeat_at = now,
                  auth_session_id = None \<rparr>
            in (Inr session,
                m1\<lparr> lc_sessions := (lc_sessions m1)(dev_id \<mapsto> session),
                    lc_events := lc_events m1 @ [OnDeviceConnected uid dev_id, ConnectedCallbacks dev_id uid] \<rparr>)))))"

definition terminate_connection :: "device_id \<Rightarrow> lifecycle \<Rightarrow> lifecycle" where
  "terminate_connection d m = (case unregister_channel d (lc_registry m) of
     (ns, r') \<Rightarrow> notify_disconnects ns (m\<lparr> lc_registry := r' \<rparr>))"

definition record_heartbeat ::
    "(channel \<Rightarrow> bool) \<Rightarrow> time_point \<Rightarrow> device_id \<Rightarrow> lifecycle \<Rightarrow> bool \<times> lifecycle" where
  "record_heartbeat active now d m = (case lc_sessions m d of
     None \<Rightarrow> (False, m)
   | Some c \<Rightarrow>
      (True, m\<lparr> lc_sessions := (lc_sessions m)(d \<mapsto> c\<lparr> last_heartbeat_at := now, conn_state := Conn_Active \<rparr>),
                lc_registry := snd (touch_channel active now d (lc_registry m)),
                lc_events := lc_events m @ [OnDeviceHeartbeat (conn_user_id c) d] \<rparr>))"

definition get_session :: "device_id \<Rightarrow> lifecycle \<Rightarrow> device_connection option" where
  "get_session d m = lc_sessions m d"

text \<open>A sweep holds no lock between the eviction in the registry and the
  callbacks, so its two halves are separate steps.\<close>

definition sweep_evict :: "capacity_config \<Rightarrow> (channel \<Rightarrow> bool) \<Rightarrow> time_point \<Rightarrow> duration \<Rightarrow> lifecycle
    \<Rightarrow> device_id list \<times> lifecycle" where
  "sweep_evict cfg active now lease_timeout m =
    (case evict_stale_channels cfg active now lease_timeout (lc_registry m) of
       (ds, r') \<Rightarrow> (ds, m\<lparr> lc_registry := r' \<rparr>))"

definition sweep_stale_connections :: "capacity_config \<Rightarrow> (channel \<Rightarrow> bool) \<Rightarrow> time_point \<Rightarrow> duration
    \<Rightarrow> lifecycle \<Rightarrow> nat \<times> lifecycle" where
  "sweep_stale_connections cfg active now lease_timeout m =
    (case sweep_evict cfg active now lease_timeout m of (ds, m1) \<Rightarrow> (length ds, notify_disconnects ds m1))"

section \<open>Registry invariant\<close>

definition user_of :: "registry \<Rightarrow> device_id \<Rightarrow> user_id option" where
  "user_of r d = map_option (ch_user_id \<circ> entry_channel) (map_of (channels r) d)"

definition devices_of :: "registry \<Rightarrow> user_id \<Rightarrow> device_id list" where
  "devices_of r u = opt_list (map_of (user_to_devices r) u)"

definition registry_inv :: "capacity_config \<Rightarrow> registry \<Rightarrow> bool" where
  "registry_inv cfg r = (distinct (map fst (channels r)) \<and> distinct (map fst (user_to_devices r))
     \<and> (\<forall>d e. map_of (channels r) d = Some e \<longrightarrow> ch_device_id (entry_channel e) = d)
     \<and> (\<forall>u. distinct (devices_of r u) \<and> set (devices_of r u) = {d. user_of r d = Some u})
     \<and> (\<forall>u. map_of (user_to_devices r) u \<noteq> Some [])
     \<and> (max_global_connections cfg > 0 \<longrightarrow> length (channels r) \<le> max_global_connections cfg))"

lemma new_registry_inv: "registry_inv cfg new_registry"
  by (simp add: registry_inv_def new_registry_def devices_of_def user_of_def)

lemma length_update_alist:
  "length (AList.update k v al) = (if k \<in> set (map fst al) then length al else Suc (length al))"
  by (induction al) auto

lemma length_delete_alist: "length (AList.delete k al) \<le> length al"
  by (simp add: AList.delete_eq)

lemma map_of_erase_user_device:
  "map_of (erase_user_device uid d u2d) u =
     (if u = uid then (let devs = filter (\<lambda>x. x \<noteq> d) (opt_list (map_of u2d uid))
                       in if devs = [] then None else Some devs)
      else map_of u2d u)"
  by (auto simp: erase_user_device_def Let_def AList.update_conv' AList.delete_conv')

lemma distinct_erase_user_device:
  "distinct (map fst u2d) \<Longrightarrow> distinct (map fst (erase_user_device uid d u2d))"
  by (simp add: erase_user_device_def Let_def AList.distinct_update AList.distinct_delete)

lemma user_of_store [simp]:
  "user_of (store_channel now ch r) d = (if d = ch_device_id ch then Some (ch_user_id ch) else user_of r d)"
  by (simp add: user_of_def store_channel_def Let_def AList.update_conv')

lemma devices_of_store [simp]:
  "devices_of (store_channel now ch r) u =
     (if u = ch_user_id ch \<and> ch_device_id ch \<notin> set (devices_of r u)
      then devices_of r u @ [ch_device_id ch] else devices_of r u)"
  by (auto simp: devices_of_def store_channel_def Let_def AList.update_conv')

lemma registry_inv_store:
  assumes "distinct (map fst (channels r))" "distinct (map fst (user_to_devices r))"
    and "\<And>d e. map_of (channels r) d = Some e \<Longrightarrow> ch_device_id (entry_channel e) = d"
    and "\<And>u. distinct (devices_of r u)"
    and "\<And>u. set (devices_of r u) - {ch_device_id ch} = {d. user_of r d = Some u} - {ch_device_id ch}"
    and "\<And>u. u \<noteq> ch_user_id ch \<Longrightarrow> ch_device_id ch \<notin> set (devices_of r u)"
    and "\<And>u. u \<noteq> ch_user_id ch \<Longrightarrow> map_of (user_to_devices r) u \<noteq> Some []"
    and "max_global_connections cfg > 0 \<Longrightarrow>
      length (AList.update (ch_device_id ch) e (channels r)) \<le> max_global_connections cfg"
  shows "registry_inv cfg (store_channel now ch r)"
proof -
  let ?r = "store_channel now ch r" and ?id = "ch_device_id ch"
  have "set (devices_of ?r u) = {d. user_of ?r d = Some u}" for u
    using assms(5) [of u] assms(6) [of u] by auto
  moreover have "distinct (devices_of ?r u)" for u using assms(4) [of u] by auto
  moreover have "map_of (user_to_devices ?r) u \<noteq> Some []" for u
    using assms(7) [of u] by (auto simp: store_channel_def Let_def AList.update_conv')
  moreover have "ch_device_id (entry_channel e) = d" if "map_of (channels ?r) d = Some e" for d e
    using that assms(3) by (auto simp: store_channel_def Let_def AList.update_conv' split: if_splits)
  ultimately show ?thesis
    using assms(1,2,8) by (auto simp: registry_inv_def store_channel_def Let_def
        AList.distinct_update length_update_alist)
qed

lemma registry_invD:
  assumes "registry_inv cfg r"
  shows "distinct (map fst (channels r))" "distinct (map fst (user_to_devices r))"
    "\<And>d e. map_of (channels r) d = Some e \<Longrightarrow> ch_device_id (entry_channel e) = d"
    "\<And>u. distinct (devices_of r u)" "\<And>u. set (devices_of r u) = {d. user_of r d = Some u}"
    "\<And>u. map_of (user_to_devices r) u \<noteq> Some []"
    "max_global_connections cfg > 0 \<Longrightarrow> length (channels r) \<le> max_global_connections cfg"
  using assms by (auto simp: registry_inv_def)

lemma drop_channel_view:
  assumes "registry_inv cfg r" "map_of (channels r) d = Some e"
  shows "user_of (drop_channel d e r) = (user_of r)(d := None)"
    and "devices_of (drop_channel d e r) u = filter (\<lambda>x. x \<noteq> d) (devices_of r u)"
proof -
  show "user_of (drop_channel d e r) = (user_of r)(d := None)"
    by (rule ext) (simp add: user_of_def drop_channel_def AList.delete_conv')
  have "d \<notin> set (devices_of r u)" if "u \<noteq> ch_user_id (entry_channel e)"
    using that assms(2) registry_invD(5) [OF assms(1), of u] by (simp add: user_of_def)
  then show "devices_of (drop_channel d e r) u = filter (\<lambda>x. x \<noteq> d) (devices_of r u)"
    by (auto simp: devices_of_def drop_channel_def map_of_erase_user_device Let_def)
qed

lemma drop_channel_inv:
  assumes "registry_inv cfg r" "map_of (channels r) d = Some e"
  shows "registry_inv cfg (drop_channel d e r)"
proof -
  note D = registry_invD [OF assms(1)] and V = drop_channel_view [OF assms]
  let ?r = "drop_channel d e r"
  have "set (devices_of ?r u) = {x. user_of ?r x = Some u}" for u using D(5) [of u] V by auto
  moreover have "distinct (devices_of ?r u)" for u using D(4) [of u] V by simp
  moreover have "map_of (user_to_devices ?r) u \<noteq> Some []" for u
    using D(6) [of u] by (auto simp: drop_channel_def map_of_erase_user_device Let_def)
  moreover have "ch_device_id (entry_channel e') = x" if "map_of (channels ?r) x = Some e'" for x e'
    using that D(3) by (auto simp: drop_channel_def AList.delete_conv' split: if_splits)
  moreover have "length (channels ?r) \<le> length (channels r)"
    by (simp add: drop_channel_def length_delete_alist)
  ultimately show ?thesis
    using D(1,2,7) by (auto simp: registry_inv_def drop_channel_def AList.distinct_delete
        distinct_erase_user_device)
qed

lemma unregister_inv [inv_intros]:
  assumes "unregister_channel d r = (ns, r')" "registry_inv cfg r"
  shows "registry_inv cfg r'"
  using assms by (auto simp: unregister_channel_def drop_channel_inv split: option.splits)

lemma register_inv [inv_intros]:
  assumes "register_channel cfg now chan r = (ex, ns, r')" "registry_inv cfg r"
  shows "registry_inv cfg r'"
proof (cases chan)
  case None
  with assms show ?thesis by (simp add: register_channel_def)
next
  case (Some ch)
  note D = registry_invD [OF assms(2)]
  let ?id = "ch_device_id ch" and ?uid = "ch_user_id ch"
  show ?thesis
  proof (cases "map_of (channels r) ?id")
    case (Some e)
    let ?old = "ch_user_id (entry_channel e)"
    let ?r1 = "if ?old \<noteq> ?uid then r\<lparr> user_to_devices := erase_user_device ?old ?id (user_to_devices r) \<rparr> else r"
    have r': "r' = store_channel now ch ?r1"
      using assms(1) Some \<open>chan = Some ch\<close> by (simp add: register_channel_def Let_def)
    have u: "user_of r ?id = Some ?old" using Some by (simp add: user_of_def)
    have dev1: "devices_of ?r1 u = (if ?old \<noteq> ?uid \<and> u = ?old then filter (\<lambda>x. x \<noteq> ?id) (devices_of r u) else devices_of r u)" for u
      by (auto simp: devices_of_def map_of_erase_user_device Let_def)
    have user1: "user_of ?r1 x = user_of r x" for x by (simp add: user_of_def)
    show ?thesis unfolding r'
    proof (rule registry_inv_store)
      fix u assume "u \<noteq> ?uid"
      then show "?id \<notin> set (devices_of ?r1 u)" using D(5) [of u] u by (auto simp: dev1)
      show "map_of (user_to_devices ?r1) u \<noteq> Some []"
        using D(6) [of u] by (auto simp: map_of_erase_user_device Let_def)
    next
      show "set (devices_of ?r1 u) - {?id} = {d. user_of ?r1 d = Some u} - {?id}" for u
        using D(5) [of u] by (auto simp: dev1 user1)
      have "?id \<in> set (map fst (channels r))" using Some by (force dest: map_of_SomeD)
      then show "length (AList.update ?id e (channels ?r1)) \<le> max_global_connections cfg"
        if "max_global_connections cfg > 0" using D(7) that by (simp add: length_update_alist)
    qed (use D in \<open>auto simp: dev1 distinct_erase_user_device split: if_splits\<close>)
  next
    case None
    let ?devs = "opt_list (map_of (user_to_devices r) ?uid)"
    let ?r1 = "r\<lparr> user_to_devices := AList.update ?uid ?devs (user_to_devices r) \<rparr>"
    have dev1: "devices_of ?r1 u = devices_of r u" for u by (simp add: devices_of_def AList.update_conv')
    have user1: "user_of ?r1 x = user_of r x" for x by (simp add: user_of_def)
    have store: "registry_inv cfg (store_channel now ch ?r1)"
      if "\<not> (max_global_connections cfg > 0 \<and> length (channels r) \<ge> max_global_connections cfg)"
    proof (rule registry_inv_store)
      show "?id \<notin> set (devices_of ?r1 u)" for u
        using D(5) [of u] None by (auto simp: dev1 user_of_def)
    qed (use D that in \<open>auto simp: dev1 user1 AList.distinct_update AList.update_conv' length_update_alist\<close>)
    have full: "registry_inv cfg ?r1" if "max_devices_per_user cfg > 0" "length ?devs \<ge> max_devices_per_user cfg"
    proof -
      have "map_of (user_to_devices r) ?uid = Some ?devs" "?devs \<noteq> []"
        using that by (cases "map_of (user_to_devices r) ?uid"; auto)+
      then have "map_of (user_to_devices ?r1) = map_of (user_to_devices r)"
        by (simp add: AList.update_conv' fun_upd_idem)
      then show ?thesis using assms(2) by (auto simp: registry_inv_def devices_of_def user_of_def AList.distinct_update)
    qed
    show ?thesis
      using assms None \<open>chan = Some ch\<close> store full
      by (auto simp: register_channel_def Let_def split: if_splits)
  qed
qed

lemma touch_inv [inv_intros]:
  assumes "touch_channel active now d r = (ok, r')" "registry_inv cfg r"
  shows "registry_inv cfg r'"
proof (cases "r' = r")
  case False
  then obtain e where e: "map_of (channels r) d = Some e"
    and r': "r' = r\<lparr> channels := AList.update d (e\<lparr> last_active_at := now \<rparr>) (channels r) \<rparr>"
    using assms(1) by (auto simp: touch_channel_def split: option.splits if_splits)
  have "user_of r' = user_of r" using e by (auto simp: user_of_def r' AList.update_conv' fun_eq_iff)
  moreover have "devices_of r' = devices_of r" by (simp add: devices_of_def r' fun_eq_iff)
  moreover have "d \<in> set (map fst (channels r))" using e by (force dest: map_of_SomeD)
  ultimately show ?thesis
    using assms(2) e by (auto simp: registry_inv_def r' AList.distinct_update AList.update_conv' length_update_alist)
qed (use assms in simp)

lemma drop_channel_lookup:
  "map_of (channels (drop_channel d e r)) x = (if x = d then None else map_of (channels r) x)"
  by (simp add: drop_channel_def AList.delete_conv')

lemma drop_channels_lookup:
  "map_of (channels (foldl (\<lambda>r (d, e). drop_channel d e r) r es)) d
     = (if d \<in> set (map fst es) then None else map_of (channels r) d)"
  by (induction es arbitrary: r) (auto simp: drop_channel_lookup)

lemma drop_channels_inv:
  assumes "registry_inv cfg r" "distinct (map fst es)" "\<forall>(d, e) \<in> set es. map_of (channels r) d = Some e"
  shows "registry_inv cfg (foldl (\<lambda>r (d, e). drop_channel d e r) r es)"
  using assms
proof (induction es arbitrary: r)
  case (Cons p es)
  obtain d0 e0 where p: "p = (d0, e0)" by fastforce
  have "registry_inv cfg (drop_channel d0 e0 r)" using Cons.prems p by (intro drop_channel_inv) auto
  moreover have "\<forall>(d, e) \<in> set es. map_of (channels (drop_channel d0 e0 r)) d = Some e"
    using Cons.prems p by (force simp: drop_channel_lookup)
  ultimately show ?case using Cons.IH [of "drop_channel d0 e0 r"] Cons.prems(2) p by simp
qed simp

lemma evict_view:
  assumes "evict_stale_channels cfg active now idle r = (ds, r')" "registry_inv cfg r"
  shows "registry_inv cfg r'"
    and "d \<in> set ds \<longleftrightarrow> (\<exists>e. map_of (channels r) d = Some e
           \<and> stale active now (if idle > 0 then idle else default_lease_timeout cfg) e)"
    and "map_of (channels r') d = (if d \<in> set ds then None else map_of (channels r) d)"
    and "distinct ds"
proof -
  let ?limit = "if idle > 0 then idle else default_lease_timeout cfg"
  let ?es = "filter (\<lambda>(d, e). stale active now ?limit e) (channels r)"
  have dist: "distinct (map fst (channels r))" using registry_invD(1) [OF assms(2)] .
  have ds: "ds = map fst ?es" and r': "r' = foldl (\<lambda>r (d, e). drop_channel d e r) r ?es"
    using assms(1) by (simp_all add: evict_stale_channels_def Let_def)
  have de: "distinct (map fst ?es)" using dist by (rule distinct_map_filter)
  have sub: "\<forall>(d, e) \<in> set ?es. map_of (channels r) d = Some e" using dist by auto
  show "registry_inv cfg r'" unfolding r' by (rule drop_channels_inv [OF assms(2) de sub])
  show "map_of (channels r') d = (if d \<in> set ds then None else map_of (channels r) d)"
    unfolding r' ds by (rule drop_channels_lookup)
  show "distinct ds" using de ds by simp
  have "map_of (channels r) d = Some e \<longleftrightarrow> (d, e) \<in> set (channels r)" for e using dist by simp
  then show "d \<in> set ds \<longleftrightarrow> (\<exists>e. map_of (channels r) d = Some e \<and> stale active now ?limit e)"
    unfolding ds set_map set_filter image_def by (simp add: Bex_def)
qed

section \<open>Every interleaving of the registry operations\<close>

inductive registry_step :: "capacity_config \<Rightarrow> registry \<Rightarrow> registry \<Rightarrow> bool" for cfg where
  reg_register: "register_channel cfg now chan r = (ex, ns, r') \<Longrightarrow> registry_step cfg r r'"
| reg_unregister: "unregister_channel d r = (ns, r') \<Longrightarrow> registry_step cfg r r'"
| reg_touch: "touch_channel active now d r = (ok, r') \<Longrightarrow> registry_step cfg r r'"
| reg_evict: "evict_stale_channels cfg active now idle r = (ds, r') \<Longrightarrow> registry_step cfg r r'"

lemma registry_step_inv: "registry_step cfg r r' \<Longrightarrow> registry_inv cfg r \<Longrightarrow> registry_inv cfg r'"
  by (cases rule: registry_step.cases) (auto intro: inv_intros evict_view(1))

lemma registry_reachable_inv: "(registry_step cfg)\<^sup>*\<^sup>* new_registry r \<Longrightarrow> registry_inv cfg r"
  by (induction rule: rtranclp_induct) (auto intro: new_registry_inv registry_step_inv)

lemma online_iff:
  "is_online cfg active now d r \<longleftrightarrow> (\<exists>e. map_of (channels r) d = Some e
     \<and> \<not> stale active now (default_lease_timeout cfg) e)"
  by (auto simp: is_online_def get_channel_def stale_def split: option.splits)

section \<open>Sessions follow the registry\<close>

definition lifecycle_inv :: "capacity_config \<Rightarrow> lifecycle \<Rightarrow> bool" where
  "lifecycle_inv cfg m = (registry_inv cfg (lc_registry m)
     \<and> (\<forall>d. map_option conn_user_id (lc_sessions m d) = user_of (lc_registry m) d)
     \<and> (\<forall>d c. lc_sessions m d = Some c \<longrightarrow> conn_device_id c = d \<and> conn_state c = Conn_Active))"

lemma notify_disconnects_sessions:
  "lc_sessions (notify_disconnects ds m) d = (if d \<in> set ds then None else lc_sessions m d)"
  "lc_registry (notify_disconnects ds m) = lc_registry m"
  by (induction ds arbitrary: m)
     (auto simp: notify_disconnects_def on_registry_disconnect_def split: option.splits)

lemma register_user_of:
  assumes "register_channel cfg now (Some ch) r = (ex, ns, r')"
  shows "user_of r' d = (if ex = None \<and> d = ch_device_id ch then Some (ch_user_id ch) else user_of r d)"
    and "set ns \<subseteq> {ch_device_id ch}" and "ex \<noteq> None \<Longrightarrow> ns = []"
proof -
  have [simp]: "user_of (r\<lparr> user_to_devices := x \<rparr>) = user_of r" for x
    by (simp add: user_of_def fun_eq_iff)
  show "user_of r' d = (if ex = None \<and> d = ch_device_id ch then Some (ch_user_id ch) else user_of r d)"
    and "set ns \<subseteq> {ch_device_id ch}" and "ex \<noteq> None \<Longrightarrow> ns = []"
    using assms by (auto simp: register_channel_def Let_def split: option.splits if_splits)
qed

lemma establish_inv:
  assumes "establish_connection cfg now ci chan ip ua v m = (res, m')" "lifecycle_inv cfg m"
  shows "lifecycle_inv cfg m'"
proof (cases chan)
  case (Some ch)
  obtain ex ns r' where reg: "register_channel cfg now (Some ch) (lc_registry m) = (ex, ns, r')"
    by (rule prod_cases3)
  have "registry_inv cfg r'" using register_inv [OF reg] assms(2) by (simp add: lifecycle_inv_def)
  then show ?thesis
    using assms Some reg register_user_of [OF reg]
    by (cases ex) (auto simp: establish_connection_def lifecycle_inv_def notify_disconnects_sessions Let_def
        split: if_splits)
qed (use assms in \<open>simp add: establish_connection_def\<close>)

lemma terminate_inv:
  assumes "lifecycle_inv cfg m"
  shows "lifecycle_inv cfg (terminate_connection d m)"
proof -
  obtain ns r' where un: "unregister_channel d (lc_registry m) = (ns, r')" by fastforce
  have "registry_inv cfg r'" using unregister_inv [OF un] assms by (simp add: lifecycle_inv_def)
  moreover have "user_of r' x = (if x \<in> set ns then None else user_of (lc_registry m) x)" for x
    using un by (auto simp: unregister_channel_def user_of_def drop_channel_lookup split: option.splits)
  ultimately show ?thesis
    using assms un by (auto simp: terminate_connection_def lifecycle_inv_def notify_disconnects_sessions split: if_splits)
qed

lemma heartbeat_inv:
  assumes "record_heartbeat active now d m = (ok, m')" "lifecycle_inv cfg m"
  shows "lifecycle_inv cfg m'"
proof (cases "lc_sessions m d")
  case (Some c)
  obtain k r' where t: "touch_channel active now d (lc_registry m) = (k, r')" by fastforce
  have "registry_inv cfg r'" using touch_inv [OF t] assms(2) by (simp add: lifecycle_inv_def)
  moreover have "user_of r' = user_of (lc_registry m)"
    using t by (auto simp: touch_channel_def user_of_def AList.update_conv' fun_eq_iff split: option.splits if_splits)
  moreover have "user_of (lc_registry m) d = Some (conn_user_id c)"
    using assms(2) Some unfolding lifecycle_inv_def by (metis option.map(2))
  ultimately show ?thesis
    using assms Some t by (auto simp: record_heartbeat_def lifecycle_inv_def split: if_splits)
qed (use assms in \<open>simp add: record_heartbeat_def\<close>)

lemma sweep_inv:
  assumes "sweep_stale_connections cfg active now lt m = (n, m')" "lifecycle_inv cfg m"
  shows "lifecycle_inv cfg m'"
proof -
  obtain ds r' where ev: "evict_stale_channels cfg active now lt (lc_registry m) = (ds, r')" by fastforce
  have ri: "registry_inv cfg (lc_registry m)" using assms(2) by (simp add: lifecycle_inv_def)
  have "user_of r' x = (if x \<in> set ds then None else user_of (lc_registry m) x)" for x
    using evict_view(3) [OF ev ri] by (simp add: user_of_def)
  then show ?thesis
    using assms ev evict_view(1) [OF ev ri]
    by (auto simp: sweep_stale_connections_def sweep_evict_def lifecycle_inv_def notify_disconnects_sessions
        split: if_splits)
qed

inductive lifecycle_step :: "capacity_config \<Rightarrow> lifecycle \<Rightarrow> lifecycle \<Rightarrow> bool" for cfg where
  lc_establish: "establish_connection cfg now ci chan ip ua v m = (res, m') \<Longrightarrow> lifecycle_step cfg m m'"
| lc_terminate: "lifecycle_step cfg m (terminate_connection d m)"
| lc_heartbeat: "record_heartbeat active now d m = (ok, m') \<Longrightarrow> lifecycle_step cfg m m'"
| lc_sweep: "sweep_stale_connections cfg active now lt m = (n, m') \<Longrightarrow> lifecycle_step cfg m m'"

lemma lifecycle_reachable_inv: "(lifecycle_step cfg)\<^sup>*\<^sup>* new_lifecycle m \<Longrightarrow> lifecycle_inv cfg m"
proof (induction rule: rtranclp_induct)
  case base
  show ?case
    using new_registry_inv [of cfg]
    by (simp add: lifecycle_inv_def new_lifecycle_def) (simp add: user_of_def new_registry_def)
next
  case (step y z)
  from step.hyps(2) step.IH show ?case
    by (cases rule: lifecycle_step.cases) (auto intro: establish_inv terminate_inv heartbeat_inv sweep_inv)
qed

section \<open>Properties\<close>

text \<open>C11: in every reachable registry the per-user index is exact: a user's list
  holds, without repetition, the devices whose current channel belongs to that
  user, no empty list is kept, and the global connection ceiling is respected.\<close>

theorem registry_index_exact:
  assumes "(registry_step cfg)\<^sup>*\<^sup>* new_registry r"
  shows "set (devices_of r u) = {d. user_of r d = Some u}
    \<and> user_device_count u r = card {d. user_of r d = Some u}
    \<and> map_of (user_to_devices r) u \<noteq> Some []
    \<and> (max_global_connections cfg = 0 \<or> connected_device_count r \<le> max_global_connections cfg)"
proof -
  note D = registry_invD [OF registry_reachable_inv [OF assms]]
  have "user_device_count u r = length (devices_of r u)"
    by (simp add: user_device_count_def devices_of_def split: option.splits)
  also have "\<dots> = card (set (devices_of r u))" using D(4) [of u] by (simp add: distinct_card)
  finally show ?thesis using D(5) [of u] D(6) [of u] D(7) by (auto simp: connected_device_count_def)
qed

definition small_capacity :: capacity_config where
  "small_capacity = \<lparr> max_devices_per_user = 1, max_global_connections = 10, default_lease_timeout = 60 \<rparr>"

definition chan :: "device_id \<Rightarrow> user_id \<Rightarrow> channel" where
  "chan d u = \<lparr> ch_device_id = d, ch_user_id = u, ch_handle = 0 \<rparr>"

definition registry_after :: "channel list \<Rightarrow> registry" where
  "registry_after chs =
     foldl (\<lambda>r c. snd (snd (register_channel small_capacity 0 (Some c) r))) new_registry chs"

lemma registry_after_reachable: "(registry_step small_capacity)\<^sup>*\<^sup>* new_registry (registry_after chs)"
proof (induction chs rule: rev_induct)
  case (snoc c chs)
  let ?r = "registry_after chs" and ?x = "register_channel small_capacity 0 (Some c) (registry_after chs)"
  have "registry_step small_capacity ?r (snd (snd ?x))"
    by (rule reg_register [where now = 0 and chan = "Some c" and ex = "fst ?x" and ns = "fst (snd ?x)"]) simp
  with snoc show ?case by (simp add: registry_after_def)
qed (simp add: registry_after_def)

lemmas registry_eval = registry_after_def register_channel_def store_channel_def erase_user_device_def
  small_capacity_def chan_def new_registry_def user_device_count_def

theorem registry_index_exact_witness:
  "user_device_count ''u'' (registry_after [chan ''a'' ''u'', chan ''a'' ''v''])
     = card {d. user_of (registry_after [chan ''a'' ''u'', chan ''a'' ''v'']) d = Some ''u''}"
  using registry_index_exact [OF registry_after_reachable] by blast




text \<open>C13: when sweeps are not interleaved with connection attempts, the sessions
  of the lifecycle manager mirror the registry: a device has a session exactly
  when it has a registered channel, for the same user, and it is active.\<close>

theorem sessions_mirror_registry:
  assumes "(lifecycle_step cfg)\<^sup>*\<^sup>* new_lifecycle m"
  shows "map_option conn_user_id (get_session d m) = user_of (lc_registry m) d
    \<and> (\<forall>c. get_session d m = Some c \<longrightarrow> conn_device_id c = d \<and> conn_state c = Conn_Active)"
  using lifecycle_reachable_inv [OF assms] by (simp add: lifecycle_inv_def get_session_def)

definition one_session :: lifecycle where
  "one_session = snd (establish_connection small_capacity 0 ''c1'' (Some (chan ''a'' ''u'')) [] [] 1 new_lifecycle)"

theorem sessions_mirror_registry_witness:
  "map_option conn_user_id (get_session ''a'' one_session) = user_of (lc_registry one_session) ''a''"
proof -
  let ?x = "establish_connection small_capacity 0 ''c1'' (Some (chan ''a'' ''u'')) [] [] 1 new_lifecycle"
  have "lifecycle_step small_capacity new_lifecycle one_session"
    unfolding one_session_def by (rule lc_establish [where res = "fst ?x"]) (rule prod.collapse [symmetric])
  then have "(lifecycle_step small_capacity)\<^sup>*\<^sup>* new_lifecycle one_session" by blast
  then show ?thesis using sessions_mirror_registry by blast
qed


end
