(* ===== verification/Identifiers.thy ===== *)
theory Identifiers
  imports Messaging_Types
begin

unbundle bit_operations_syntax

text \<open>
  The UUIDv7 value objects: \<open>Uuid\<close> of the auth service, \<open>MessageId\<close> and
  \<open>ConversationId\<close> of messaging and \<open>EventId\<close> of audit.  Each is an array of
  sixteen bytes with its own parser, printer and generator.  An index past the
  end of the parsed view is a value of its own, \<open>ReadPastEnd\<close>.
\<close>

section \<open>Hexadecimal digits\<close>

datatype access_error = ReadPastEnd nat

definition hex_val :: "char \<Rightarrow> int" where
  "hex_val c = (let n = of_char c in
     if 48 \<le> n \<and> n \<le> 57 then n - 48
     else if 97 \<le> n \<and> n \<le> 102 then n - 97 + 10
     else if 65 \<le> n \<and> n \<le> 70 then n - 65 + 10
     else -1)"

definition hex_chars :: string where
  "hex_chars = ''0123456789abcdef''"

definition join_nibbles :: "int \<Rightarrow> int \<Rightarrow> byte" where
  "join_nibbles hi lo = word_of_int (push_bit 4 hi OR lo)"

definition hi_char :: "byte \<Rightarrow> char" where
  "hi_char b = hex_chars ! unat (drop_bit 4 b AND 0x0F)"

definition lo_char :: "byte \<Rightarrow> char" where
  "lo_char b = hex_chars ! unat (b AND 0x0F)"

definition byte_hex :: "byte \<Rightarrow> string" where
  "byte_hex b = [hi_char b, lo_char b]"

definition hyphenated :: "string \<Rightarrow> bool" where
  "hyphenated sv = (sv ! 8 = CHR ''-'' \<and> sv ! 13 = CHR ''-'' \<and> sv ! 18 = CHR ''-'' \<and> sv ! 23 = CHR ''-'')"

section \<open>Auth: Uuid\<close>

text \<open>The loop of \<open>Uuid::from_string\<close> skips a hyphen wherever it finds one.\<close>

function uuid_scan :: "string \<Rightarrow> nat \<Rightarrow> nat \<Rightarrow> bytes \<Rightarrow> access_error + bytes option" where
  "uuid_scan str i byte_idx bs =
    (if i < 36 then
       if str ! i = CHR ''-'' then uuid_scan str (i + 1) byte_idx bs
       else if length str \<le> i + 1 then Inl (ReadPastEnd (i + 1))
       else let hi = hex_val (str ! i); lo = hex_val (str ! (i + 1)) in
         if hi < 0 \<or> lo < 0 then Inr None
         else uuid_scan str (i + 2) (byte_idx + 1) (bs[byte_idx := join_nibbles hi lo])
     else Inr (Some bs))"
  by pat_completeness auto
termination by (relation "measure (\<lambda>(str, i, j, bs). 36 - i)") auto

definition uuid_from_string :: "string \<Rightarrow> access_error + bytes option" where
  "uuid_from_string str =
    (if length str \<noteq> 36 then Inr None
     else if \<not> hyphenated str then Inr None
     else uuid_scan str 0 0 (replicate 16 0))"

definition write_byte :: "nat \<Rightarrow> byte \<Rightarrow> string \<Rightarrow> string" where
  "write_byte pos b s = s[pos := hi_char b, pos + 1 := lo_char b]"

definition uuid_to_string :: "bytes \<Rightarrow> string" where
  "uuid_to_string bs = foldl (\<lambda>s (pos, i). write_byte pos (bs ! i) s) (replicate 36 CHR ''-'')
     [(0, 0), (2, 1), (4, 2), (6, 3), (9, 4), (11, 5), (14, 6), (16, 7), (19, 8), (21, 9),
      (24, 10), (26, 11), (28, 12), (30, 13), (32, 14), (34, 15)]"

text \<open>\<open>RAND_bytes\<close> is the parameter \<open>rnd\<close>: ten bytes, or \<open>None\<close> when it fails
  and the generator throws.\<close>

definition timestamp_bytes :: "u64 \<Rightarrow> bytes" where
  "timestamp_bytes now_ms = map (\<lambda>k. ucast (drop_bit k now_ms AND 0xFF)) [40, 32, 24, 16, 8, 0]"

definition uuid_generate_v7 :: "u64 \<Rightarrow> bytes option \<Rightarrow> bytes option" where
  "uuid_generate_v7 now_ms rnd = (case rnd of None \<Rightarrow> None | Some r \<Rightarrow>
     Some (timestamp_bytes now_ms
       @ [0x70 OR (r ! 0 AND 0x0F), r ! 1, 0x80 OR (r ! 2 AND 0x3F)]
       @ map (\<lambda>i. r ! i) [3..<10]))"

definition uuid_version :: "bytes \<Rightarrow> byte" where
  "uuid_version bs = drop_bit 4 (bs ! 6) AND 0x0F"

definition uuid_variant :: "bytes \<Rightarrow> byte" where
  "uuid_variant bs = (let v = drop_bit 6 (bs ! 8) AND 0x03 in if v = 2 \<or> v = 3 then 2 else v)"

definition uuid_timestamp_ms :: "bytes \<Rightarrow> u64" where
  "uuid_timestamp_ms bs =
     push_bit 40 (ucast (bs ! 0)) OR push_bit 32 (ucast (bs ! 1)) OR push_bit 24 (ucast (bs ! 2))
     OR push_bit 16 (ucast (bs ! 3)) OR push_bit 8 (ucast (bs ! 4)) OR ucast (bs ! 5)"

definition uuid_is_nil :: "bytes \<Rightarrow> bool" where
  "uuid_is_nil bs = list_all (\<lambda>b. b = 0) bs"

section \<open>Messaging and audit: identifiers parsed by position\<close>

function id_scan :: "string \<Rightarrow> nat \<Rightarrow> nat \<Rightarrow> bytes \<Rightarrow> access_error + bytes option" where
  "id_scan sv i byte_idx bs =
    (if i < 36 then
       if i = 8 \<or> i = 13 \<or> i = 18 \<or> i = 23 then id_scan sv (i + 1) byte_idx bs
       else if length sv \<le> i + 1 then Inl (ReadPastEnd (i + 1))
       else let hi = hex_val (sv ! i); lo = hex_val (sv ! (i + 1)) in
         if hi < 0 \<or> lo < 0 then Inr None
         else id_scan sv (i + 2) (byte_idx + 1) (bs[byte_idx := join_nibbles hi lo])
     else Inr (Some bs))"
  by pat_completeness auto
termination by (relation "measure (\<lambda>(str, i, j, bs). 36 - i)") auto

definition message_id_from_string :: "string \<Rightarrow> access_error + bytes option" where
  "message_id_from_string sv =
    (if length sv \<noteq> 36 then Inr None
     else if \<not> hyphenated sv then Inr None
     else id_scan sv 0 0 (replicate 16 0))"

definition conversation_id_from_string :: "string \<Rightarrow> access_error + bytes option" where
  "conversation_id_from_string sv =
    (if length sv \<noteq> 36 then Inr None
     else if \<not> hyphenated sv then Inr None
     else id_scan sv 0 0 (replicate 16 0))"

definition message_id_generate_v7 :: "u64 \<Rightarrow> bytes option \<Rightarrow> bytes option" where
  "message_id_generate_v7 now_ms rnd = (case rnd of None \<Rightarrow> None | Some r \<Rightarrow>
     Some (timestamp_bytes now_ms
       @ [0x70 OR (r ! 0 AND 0x0F), r ! 1, 0x80 OR (r ! 2 AND 0x3F)]
       @ map (\<lambda>i. r ! i) [3..<10]))"

definition conversation_id_generate_v7 :: "u64 \<Rightarrow> bytes option \<Rightarrow> bytes option" where
  "conversation_id_generate_v7 now_ms rnd = (case rnd of None \<Rightarrow> None | Some r \<Rightarrow>
     Some (timestamp_bytes now_ms
       @ [0x70 OR (r ! 0 AND 0x0F), r ! 1, 0x80 OR (r ! 2 AND 0x3F)]
       @ map (\<lambda>i. r ! i) [3..<10]))"

definition is_hex_char :: "char \<Rightarrow> bool" where
  "is_hex_char c = (let n = of_char c :: int in
     (48 \<le> n \<and> n \<le> 57) \<or> (97 \<le> n \<and> n \<le> 102) \<or> (65 \<le> n \<and> n \<le> 70))"

definition user_id_is_valid_format :: "string \<Rightarrow> bool" where
  "user_id_is_valid_format sv =
    (if length sv \<noteq> 36 then False
     else if \<not> hyphenated sv then False
     else list_all (\<lambda>i. i = 8 \<or> i = 13 \<or> i = 18 \<or> i = 23 \<or> is_hex_char (sv ! i)) [0..<36])"

definition user_id_from_string :: "string \<Rightarrow> user_id option" where
  "user_id_from_string sv = (if \<not> user_id_is_valid_format sv then None else Some sv)"

definition message_id_to_string :: "bytes \<Rightarrow> string" where
  "message_id_to_string bs =
     concat (map (\<lambda>i. (if i = 4 \<or> i = 6 \<or> i = 8 \<or> i = 10 then ''-'' else []) @ byte_hex (bs ! i)) [0..<16])"

definition conversation_id_to_string :: "bytes \<Rightarrow> string" where
  "conversation_id_to_string bs =
     concat (map (\<lambda>i. (if i = 4 \<or> i = 6 \<or> i = 8 \<or> i = 10 then ''-'' else []) @ byte_hex (bs ! i)) [0..<16])"

definition event_id_variant :: "bytes \<Rightarrow> byte" where
  "event_id_variant bs = drop_bit 6 (bs ! 8) AND 0x03"

definition event_id_from_string :: "string \<Rightarrow> access_error + bytes option" where
  "event_id_from_string sv =
    (if length sv \<noteq> 36 then Inr None
     else if \<not> hyphenated sv then Inr None
     else case id_scan sv 0 0 (replicate 16 0) of
         Inr (Some raw) \<Rightarrow>
           if uuid_version raw \<noteq> 7 \<or> event_id_variant raw \<noteq> 2 then Inr None else Inr (Some raw)
       | r \<Rightarrow> r)"

definition event_id_to_string :: "bytes \<Rightarrow> string" where
  "event_id_to_string bs =
     concat (map byte_hex (take 4 bs)) @ ''-'' @ concat (map byte_hex (take 2 (drop 4 bs))) @ ''-''
     @ concat (map byte_hex (take 2 (drop 6 bs))) @ ''-'' @ concat (map byte_hex (take 2 (drop 8 bs))) @ ''-''
     @ concat (map byte_hex (take 6 (drop 10 bs)))"

definition event_id_generate_v7 :: "u64 \<Rightarrow> bytes option \<Rightarrow> bytes option" where
  "event_id_generate_v7 now_ms rnd = (case rnd of None \<Rightarrow> None | Some raw \<Rightarrow>
     Some ((timestamp_bytes now_ms @ drop 6 raw)
       [6 := (raw ! 6 AND 0x0F) OR 0x70, 8 := (raw ! 8 AND 0x3F) OR 0x80]))"

section \<open>Round trips\<close>

declare uuid_scan.simps [simp del] id_scan.simps [simp del]

lemma hex_digit:
  assumes "n < 16"
  shows "hex_val (hex_chars ! n) = int n" "hex_chars ! n \<noteq> CHR ''-''"
proof -
  have "list_all (\<lambda>n. hex_val (hex_chars ! n) = int n \<and> hex_chars ! n \<noteq> CHR ''-'') [0..<16]"
    by code_simp
  with assms show "hex_val (hex_chars ! n) = int n" "hex_chars ! n \<noteq> CHR ''-''"
    by (auto simp: list_all_iff)
qed

lemma nibble_less: "unat (w AND (0x0F :: byte)) < 16"
proof -
  have "w AND 0x0F \<le> (0x0F :: byte)" by (rule word_and_le1)
  then have "unat (w AND 0x0F) \<le> unat (0x0F :: byte)" by (simp only: word_le_nat_alt)
  then show ?thesis by simp
qed

lemma word_of_int_shift_or:
  "word_of_int (push_bit k (uint x) OR uint y) = push_bit k x OR (y :: 'a::len word)"
  by (rule bit_word_eqI) (auto simp: bit_simps)

lemma join_split_nibbles:
  "join_nibbles (uint (drop_bit 4 b AND 0x0F)) (uint (b AND 0x0F)) = b"
proof -
  have m: "(0x0F :: byte) = mask 4" by (simp add: mask_eq_exp_minus_1)
  have "join_nibbles (uint (drop_bit 4 b AND 0x0F)) (uint (b AND 0x0F))
      = push_bit 4 (drop_bit 4 b AND 0x0F) OR (b AND 0x0F)"
    unfolding join_nibbles_def by (rule word_of_int_shift_or)
  also have "\<dots> = b" unfolding m by (rule bit_word_eqI) (auto simp: bit_simps)
  finally show ?thesis .
qed

lemma hex_val_chars [simp]:
  "\<not> hex_val (hi_char b) < 0" "\<not> hex_val (lo_char b) < 0"
  "hi_char b \<noteq> CHR ''-''" "lo_char b \<noteq> CHR ''-''"
  "join_nibbles (hex_val (hi_char b)) (hex_val (lo_char b)) = b"
  using hex_digit [OF nibble_less [of "drop_bit 4 b"]] hex_digit [OF nibble_less [of b]]
  by (simp_all add: hi_char_def lo_char_def join_split_nibbles)

lemma length_16_cases:
  assumes "length bs = 16"
  obtains b0 b1 b2 b3 b4 b5 b6 b7 b8 b9 b10 b11 b12 b13 b14 b15
  where "bs = [b0, b1, b2, b3, b4, b5, b6, b7, b8, b9, b10, b11, b12, b13, b14, b15]"
  using assms by (auto simp: length_Suc_conv numeral_eq_Suc)

lemma printers_agree:
  assumes "length bs = 16"
  shows "uuid_to_string bs = event_id_to_string bs"
    "message_id_to_string bs = event_id_to_string bs"
    "conversation_id_to_string bs = event_id_to_string bs"
  using assms
  by (rule length_16_cases;
      simp add: uuid_to_string_def write_byte_def event_id_to_string_def byte_hex_def
        message_id_to_string_def conversation_id_to_string_def numeral_eq_Suc)+

text \<open>The sixteen reads of a scan of thirty-six characters, in order.\<close>

definition hex_positions :: "nat list" where
  "hex_positions = [0, 2, 4, 6, 9, 11, 14, 16, 19, 21, 24, 26, 28, 30, 32, 34]"

definition pair_ok :: "string \<Rightarrow> nat \<Rightarrow> bool" where
  "pair_ok sv i = (0 \<le> hex_val (sv ! i) \<and> 0 \<le> hex_val (sv ! (i + 1)))"

definition pair_byte :: "string \<Rightarrow> nat \<Rightarrow> byte" where
  "pair_byte sv i = join_nibbles (hex_val (sv ! i)) (hex_val (sv ! (i + 1)))"

lemma id_scan_pair:
  assumes "i + 1 < length sv" "i < 36" "i \<notin> {8, 13, 18, 23}"
  shows "id_scan sv i k bs = (if pair_ok sv i then id_scan sv (i + 2) (Suc k) (bs[k := pair_byte sv i])
    else Inr None)"
  using assms by (auto simp: id_scan.simps [of sv i] pair_ok_def pair_byte_def Let_def)

lemma id_scan_skip:
  "i \<in> {8, 13, 18, 23} \<Longrightarrow> id_scan sv i k bs = id_scan sv (i + 1) k bs"
  by (auto simp: id_scan.simps [of sv i])

lemma id_scan_end: "id_scan sv 36 k bs = Inr (Some bs)"
  by (simp add: id_scan.simps)

lemma id_scan_36:
  assumes "length sv = 36"
  shows "id_scan sv 0 0 (replicate 16 0) =
    (if list_all (pair_ok sv) hex_positions then Inr (Some (map (pair_byte sv) hex_positions)) else Inr None)"
proof -
  have "(replicate 16 0 :: bytes) = [0, 0, 0, 0, 0, 0, 0, 0, 0, 0, 0, 0, 0, 0, 0, 0]"
    by (simp add: numeral_eq_Suc)
  then show ?thesis
    using assms by (simp add: id_scan_pair id_scan_skip id_scan_end hex_positions_def
        del: add_2_eq_Suc add_2_eq_Suc')
qed

definition hyphens_in_place :: "string \<Rightarrow> bool" where
  "hyphens_in_place sv = list_all (\<lambda>j. sv ! j = CHR ''-'' \<longleftrightarrow> j \<in> {8, 13, 18, 23}) [0..<36]"

lemma uuid_scan_eq_id_scan:
  assumes "hyphens_in_place sv"
  shows "uuid_scan sv i k bs = id_scan sv i k bs"
proof -
  have hyphen: "sv ! j = CHR ''-'' \<longleftrightarrow> j \<in> {8, 13, 18, 23}" if "j < 36" for j
    using assms that by (auto simp: hyphens_in_place_def list_all_iff)
  show ?thesis
  proof (induction "36 - i" arbitrary: i k bs rule: less_induct)
    case less
    show ?case
    proof (cases "i < 36")
      case True
      then have "uuid_scan sv (i + 1) k bs = id_scan sv (i + 1) k bs"
        "uuid_scan sv (i + 2) (k + 1) bs' = id_scan sv (i + 2) (k + 1) bs'" for bs'
        by (auto intro: less)
      with hyphen [OF True] True show ?thesis
        by (simp add: uuid_scan.simps [of sv i] id_scan.simps [of sv i] Let_def)
    qed (simp add: uuid_scan.simps [of sv i] id_scan.simps [of sv i])
  qed
qed

lemma upt_36: "[0..<36] = [0, 1, 2, 3, 4, 5, 6, 7, 8, 9, 10, 11, 12, 13, 14, 15, 16, 17, 18, 19, 20,
    21, 22, 23, 24, 25, 26, 27, 28, 29, 30, 31, 32, 33, 34, 35::nat]"
  by (simp add: upt_conv_Cons)

lemma printed_form:
  assumes "length bs = 16" "sv = event_id_to_string bs"
  shows "length sv = 36" "hyphenated sv" "hyphens_in_place sv"
    "list_all (pair_ok sv) hex_positions" "map (pair_byte sv) hex_positions = bs"
  using assms(1)
  by (rule length_16_cases; simp add: assms(2) event_id_to_string_def byte_hex_def hyphenated_def
      hyphens_in_place_def upt_36 pair_ok_def pair_byte_def hex_positions_def flip: not_less)+

lemma hex_val_nonneg_iff: "0 \<le> hex_val c \<longleftrightarrow> is_hex_char c"
  by (auto simp: hex_val_def is_hex_char_def Let_def)

lemma valid_format_iff:
  "user_id_is_valid_format sv \<longleftrightarrow>
     length sv = 36 \<and> hyphenated sv \<and> list_all (pair_ok sv) hex_positions"
  by (auto simp: user_id_is_valid_format_def upt_36 pair_ok_def hex_positions_def hex_val_nonneg_iff)

section \<open>Generated identifiers\<close>

lemma ucast_low_byte: "ucast (ucast (x AND 0xFF) :: byte) = (take_bit 8 x :: u64)"
proof -
  have m: "(0xFF :: u64) = mask 8" by (simp add: mask_eq_exp_minus_1)
  show ?thesis unfolding m by (rule bit_word_eqI) (auto simp: bit_simps)
qed

lemma take_bit_extend:
  "push_bit k (take_bit 8 (drop_bit k x)) OR take_bit k x = take_bit (k + 8) (x :: u64)"
  by (rule bit_word_eqI) (auto simp: bit_simps)

lemma timestamp_round_trip: "uuid_timestamp_ms (timestamp_bytes now_ms @ rest) = take_bit 48 now_ms"
  using take_bit_extend [of 8 now_ms] take_bit_extend [of 16 now_ms] take_bit_extend [of 24 now_ms]
    take_bit_extend [of 32 now_ms] take_bit_extend [of 40 now_ms]
  by (simp add: uuid_timestamp_ms_def timestamp_bytes_def ucast_low_byte)

lemma version_bits:
  "drop_bit 4 (0x70 OR (r AND 0x0F)) AND 0x0F = (7 :: byte)"
  "drop_bit 6 (0x80 OR (r AND 0x3F)) AND 0x03 = (2 :: byte)"
  by (simp_all add: drop_bit_or drop_bit_and)

lemma event_id_print_parse:
  assumes "length bs = 16"
  shows "event_id_from_string (event_id_to_string bs) =
    Inr (if uuid_version bs = 7 \<and> event_id_variant bs = 2 then Some bs else None)"
  using assms printed_form [OF assms refl] by (simp add: event_id_from_string_def id_scan_36)

section \<open>Properties\<close>

text \<open>C5: parsing what was printed gives the identifier back, for the auth \<open>Uuid\<close>
  and the messaging identifiers on every sixteen-byte value, and for the audit
  \<open>EventId\<close> exactly on the values that carry version 7 and variant 2.\<close>

theorem identifier_round_trip:
  assumes "length bs = 16"
  shows "uuid_from_string (uuid_to_string bs) = Inr (Some bs)
    \<and> message_id_from_string (message_id_to_string bs) = Inr (Some bs)
    \<and> conversation_id_from_string (conversation_id_to_string bs) = Inr (Some bs)
    \<and> event_id_from_string (event_id_to_string bs) =
        Inr (if uuid_version bs = 7 \<and> event_id_variant bs = 2 then Some bs else None)"
  using assms printed_form [OF assms refl]
  by (simp add: printers_agree uuid_from_string_def message_id_from_string_def
      conversation_id_from_string_def event_id_print_parse uuid_scan_eq_id_scan id_scan_36)

theorem identifier_round_trip_witness:
  "uuid_from_string (uuid_to_string (replicate 16 0xAB)) = Inr (Some (replicate 16 0xAB))"
  using identifier_round_trip [of "replicate 16 0xAB"] by simp

text \<open>C6: the messaging identifier parser is total (it never reads past the end
  of its argument), and it accepts exactly the strings that \<open>UserId\<close> accepts as
  well-formed: five hyphen-separated groups of hexadecimal digits.\<close>

theorem message_id_parser_exact:
  "message_id_from_string sv =
     Inr (if user_id_is_valid_format sv then Some (map (pair_byte sv) hex_positions) else None)
   \<and> (message_id_from_string sv \<noteq> Inr None \<longleftrightarrow> user_id_from_string sv \<noteq> None)"
  using id_scan_36 [of sv]
  by (auto simp: message_id_from_string_def valid_format_iff user_id_from_string_def)

text \<open>The auth parser agrees with the messaging parser on every string whose
  hyphens stand only at the four canonical positions.\<close>

theorem uuid_parser_canonical:
  assumes "hyphens_in_place str"
  shows "uuid_from_string str = message_id_from_string str"
  using assms by (simp add: uuid_from_string_def message_id_from_string_def uuid_scan_eq_id_scan)




end
