(* ===== verification/Message_Bucket.thy ===== *)
theory Message_Bucket
  imports Prelude
begin

text \<open>
  \<open>MessageBucket\<close> (\<open>src/src/messaging/domain/message_bucket.cpp\<close>): the monthly
  partition key \<open>YYYYMM\<close> of the message and delivery tables.  Time points are
  milliseconds since the Unix epoch.  The conversion of the C library to a UTC
  calendar date is \<open>utc_year_month\<close>, the proleptic Gregorian calendar.
\<close>

section \<open>Model\<close>

datatype bucket_error = InvalidYear | InvalidMonth | Uninitialized

record message_bucket =
  bucket_value :: string
  bucket_year :: int
  bucket_month :: int

definition empty_bucket :: message_bucket where
  "empty_bucket = \<lparr> bucket_value = [], bucket_year = 0, bucket_month = 0 \<rparr>"

definition dec_digit :: "int \<Rightarrow> char" where
  "dec_digit n = char_of (nat (48 + n))"

definition bucket_string :: "int \<Rightarrow> int \<Rightarrow> string" where
  "bucket_string year month =
     [dec_digit (year div 1000), dec_digit (year div 100 mod 10), dec_digit (year div 10 mod 10),
      dec_digit (year mod 10), dec_digit (month div 10), dec_digit (month mod 10)]"

definition from_year_month :: "int \<Rightarrow> int \<Rightarrow> bucket_error + message_bucket" where
  "from_year_month year month =
    (if year < 1970 \<or> year > 9999 then Inl InvalidYear
     else if month < 1 \<or> month > 12 then Inl InvalidMonth
     else Inr \<lparr> bucket_value = bucket_string year month, bucket_year = year, bucket_month = month \<rparr>)"

definition utc_year_month :: "time_point \<Rightarrow> int \<times> int" where
  "utc_year_month ms =
    (let z = ms div 86400000 + 719468;
         era = z div 146097; doe = z mod 146097;
         yoe = (doe - doe div 1460 + doe div 36524 - doe div 146096) div 365;
         doy = doe - (365 * yoe + yoe div 4 - yoe div 100);
         mp = (5 * doy + 2) div 153;
         m = (if mp < 10 then mp + 3 else mp - 9)
     in (yoe + era * 400 + (if m \<le> 2 then 1 else 0), m))"

definition from_time_point :: "time_point \<Rightarrow> bucket_error + message_bucket" where
  "from_time_point tp = (case utc_year_month tp of (year, month) \<Rightarrow> from_year_month year month)"

definition char_digit :: "char \<Rightarrow> int" where
  "char_digit c = of_char c - 48"

definition is_dec_digit :: "char \<Rightarrow> bool" where
  "is_dec_digit c = (48 \<le> (of_char c :: int) \<and> (of_char c :: int) \<le> 57)"

definition bucket_from_string :: "string \<Rightarrow> message_bucket option" where
  "bucket_from_string sv =
    (if length sv \<noteq> 6 then None
     else if \<not> list_all is_dec_digit sv then None
     else
       let year = char_digit (sv ! 0) * 1000 + char_digit (sv ! 1) * 100 + char_digit (sv ! 2) * 10
                  + char_digit (sv ! 3);
           month = char_digit (sv ! 4) * 10 + char_digit (sv ! 5)
       in if year < 1970 \<or> year > 9999 \<or> month < 1 \<or> month > 12 then None
          else Some \<lparr> bucket_value = sv, bucket_year = year, bucket_month = month \<rparr>)"

definition next_bucket :: "message_bucket \<Rightarrow> bucket_error + message_bucket" where
  "next_bucket b =
    (if bucket_value b = [] then Inl Uninitialized
     else let m = bucket_month b + 1 in
       if m > 12 then from_year_month (bucket_year b + 1) 1 else from_year_month (bucket_year b) m)"

definition previous_bucket :: "message_bucket \<Rightarrow> bucket_error + message_bucket" where
  "previous_bucket b =
    (if bucket_value b = [] then Inl Uninitialized
     else let m = bucket_month b - 1 in
       if m < 1 then from_year_month (bucket_year b - 1) 12 else from_year_month (bucket_year b) m)"

section \<open>Lemmas\<close>

lemma digit_round_trip [simp]:
  assumes "0 \<le> n" "n \<le> 9"
  shows "char_digit (dec_digit n) = n" "is_dec_digit (dec_digit n)"
proof -
  have "(of_char (dec_digit n) :: int) = 48 + n"
  proof -
    have "of_char (char_of (nat (48 + n)) :: char) = nat (48 + n)" using assms by simp
    then have "int (of_char (dec_digit n)) = 48 + n" using assms by (simp only: dec_digit_def)
    then show ?thesis by (simp only: of_nat_of_char)
  qed
  then show "char_digit (dec_digit n) = n" "is_dec_digit (dec_digit n)"
    using assms by (simp_all add: char_digit_def is_dec_digit_def)
qed

lemma from_year_month_cases:
  assumes "from_year_month y m = Inr b"
  shows "1970 \<le> y" "y \<le> 9999" "1 \<le> m" "m \<le> 12"
    "b = \<lparr> bucket_value = bucket_string y m, bucket_year = y, bucket_month = m \<rparr>"
  using assms by (auto simp: from_year_month_def split: if_splits)

lemma decimal_split:
  fixes y :: int
  assumes "0 \<le> y" "y \<le> 9999"
  shows "0 \<le> y div 1000" "y div 1000 \<le> 9"
    "y div 1000 * 1000 + y div 100 mod 10 * 100 + y div 10 mod 10 * 10 + y mod 10 = y"
proof -
  show "0 \<le> y div 1000" "y div 1000 \<le> 9" using assms by linarith+
  have "y div 100 = y div 10 div 10" "y div 1000 = y div 100 div 10"
    using zdiv_zmult2_eq [of 10 y 10] zdiv_zmult2_eq [of 10 y 100] by simp_all
  then show "y div 1000 * 1000 + y div 100 mod 10 * 100 + y div 10 mod 10 * 10 + y mod 10 = y"
    using div_mult_mod_eq [of y 10] div_mult_mod_eq [of "y div 10" 10] div_mult_mod_eq [of "y div 100" 10]
    by linarith
qed

lemma bucket_string_parse:
  assumes "from_year_month y m = Inr b"
  shows "bucket_from_string (bucket_value b) = Some b"
proof -
  note c = from_year_month_cases [OF assms]
  have m: "0 \<le> m div 10" "m div 10 \<le> 9" using c(3,4) by linarith+
  have mm: "m div 10 * 10 + m mod 10 = m" by simp
  have y: "0 \<le> y" "y \<le> 9999" using c(1,2) by simp_all
  note d = decimal_split [OF y]
  have "bucket_from_string (bucket_string y m) = Some \<lparr> bucket_value = bucket_string y m,
      bucket_year = y div 1000 * 1000 + y div 100 mod 10 * 100 + y div 10 mod 10 * 10 + y mod 10,
      bucket_month = m div 10 * 10 + m mod 10 \<rparr>"
    unfolding bucket_from_string_def bucket_string_def Let_def
    using c(1-4) m d(1,2) by (simp add: d(3) mm del: minus_mult_div_eq_mod)
  then show ?thesis unfolding d(3) mm c(5) by simp
qed

lemma bucket_string_nonempty [simp]: "bucket_string y m \<noteq> []"
  by (simp add: bucket_string_def)

lemma next_previous:
  assumes "from_year_month y m = Inr b"
  shows "case next_bucket b of Inr b' \<Rightarrow> previous_bucket b' = Inr b
    | Inl e \<Rightarrow> y = 9999 \<and> m = 12 \<and> e = InvalidYear"
proof -
  note c = from_year_month_cases [OF assms]
  consider "m < 12" | "m = 12" "y < 9999" | "m = 12" "y = 9999" using c(2,4) by linarith
  then show ?thesis
    by cases (use c in \<open>simp_all add: next_bucket_def previous_bucket_def from_year_month_def Let_def\<close>)
qed

section \<open>Properties\<close>

text \<open>A bucket built from a valid year and month is parsed back from its text,
  and stepping to the next month and back is the identity; the step fails only
  at the end of the year 9999.\<close>

theorem bucket_round_trip:
  assumes "from_year_month y m = Inr b"
  shows "bucket_from_string (bucket_value b) = Some b
    \<and> (case next_bucket b of Inr b' \<Rightarrow> previous_bucket b' = Inr b
        | Inl e \<Rightarrow> y = 9999 \<and> m = 12 \<and> e = InvalidYear)"
  using bucket_string_parse [OF assms] next_previous [OF assms] by simp

theorem bucket_round_trip_witness:
  "bucket_from_string (bucket_string 2026 12)
     = Some \<lparr> bucket_value = bucket_string 2026 12, bucket_year = 2026, bucket_month = 12 \<rparr>"
proof -
  have b: "from_year_month 2026 12 =
      Inr \<lparr> bucket_value = bucket_string 2026 12, bucket_year = 2026, bucket_month = 12 \<rparr>"
    by (simp add: from_year_month_def)
  show ?thesis using bucket_round_trip [OF b] by simp
qed

end
