(* ===== verification/Delivery_Store.thy ===== *)
theory Delivery_Store
  imports Delivery_State Identifiers Message_Bucket
    "HOL-Library.Char_ord" "HOL-Library.List_Lexorder" "HOL-Library.Product_Lexorder"
begin

text \<open>
  \<open>ScyllaDeliveryStateRepository\<close> (\<open>src/src/messaging/repository\<close>) over the two
  tables that its prepared statements name.  A CQL \<open>INSERT\<close> replaces the row of
  its key; a CQL \<open>UPDATE\<close> of a missing key creates a row whose other columns are
  null, and reading a null text column throws.  Time points are milliseconds, the
  resolution of the tables.
\<close>

section \<open>Envelope columns\<close>

definition e2e_algorithm_to_string :: "e2e_algorithm \<Rightarrow> string" where
  "e2e_algorithm_to_string a = (case a of
       XChaCha20_Poly1305 \<Rightarrow> ''XChaCha20-Poly1305'' | AES_256_GCM \<Rightarrow> ''AES-256-GCM''
     | Alg_Unspecified \<Rightarrow> ''UNSPECIFIED'')"

definition e2e_algorithm_from_string :: "string \<Rightarrow> e2e_algorithm option" where
  "e2e_algorithm_from_string sv =
    (if sv = ''XChaCha20-Poly1305'' \<or> sv = ''xchacha20-poly1305'' \<or> sv = ''XCHACHA20_POLY1305''
     then Some XChaCha20_Poly1305
     else if sv = ''AES-256-GCM'' \<or> sv = ''aes-256-gcm'' \<or> sv = ''AES_256_GCM'' then Some AES_256_GCM
     else None)"

definition e2e_protocol_version_to_int :: "e2e_protocol_version \<Rightarrow> int" where
  "e2e_protocol_version_to_int v = (case v of
       PV_Unspecified \<Rightarrow> 0 | V1_Signal_PQXDH_DoubleRatchet \<Rightarrow> 1 | V2_Hybrid_PostQuantum \<Rightarrow> 2)"

definition e2e_protocol_version_from_int :: "int \<Rightarrow> e2e_protocol_version option" where
  "e2e_protocol_version_from_int val =
    (if val = 1 then Some V1_Signal_PQXDH_DoubleRatchet
     else if val = 2 then Some V2_Hybrid_PostQuantum else None)"

section \<open>Records and rows\<close>

record device_delivery_record =
  rec_device_id :: device_id
  rec_delivery_bucket :: string
  rec_accepted_at :: time_point
  rec_message_id :: message_id
  rec_conversation_id :: conversation_id
  rec_message_sequence :: u64
  rec_message_priority :: message_priority
  rec_delivery_state :: delivery_state
  rec_attempt_count :: int
  rec_next_retry_at :: "time_point option"
  rec_ciphertext_blob :: string
  rec_ephemeral_public_key :: bytes
  rec_iv :: bytes
  rec_auth_tag :: bytes
  rec_algorithm :: e2e_algorithm
  rec_protocol_version :: e2e_protocol_version
  rec_one_time_prekey_id :: "string option"

record recipient_delivery_state =
  rds_message_id :: message_id
  rds_recipient_device_id :: device_id
  rds_recipient_user_id :: user_id
  rds_delivery_state :: delivery_state
  rds_delivered_at :: "time_point option"
  rds_read_at :: "time_point option"

text \<open>The columns that only an \<open>INSERT\<close> sets.\<close>

record inserted_columns =
  col_conversation_id :: conversation_id
  col_message_sequence :: u64
  col_message_priority :: message_priority
  col_ciphertext_blob :: "string option"
  col_ephemeral_public_key :: "bytes option"
  col_iv :: "bytes option"
  col_auth_tag :: "bytes option"
  col_algorithm :: string
  col_protocol_version :: int
  col_one_time_prekey_id :: "string option"

type_synonym pending_key = "device_id \<times> string \<times> time_point \<times> message_id"

record pending_row =
  row_key :: pending_key
  row_columns :: "inserted_columns option"
  row_state :: delivery_state
  row_attempt_count :: int
  row_next_retry_at :: "time_point option"

record recipient_row =
  rr_key :: "message_id \<times> device_id"
  rr_user_id :: "user_id option"
  rr_state :: delivery_state
  rr_delivered_at :: "time_point option"
  rr_read_at :: "time_point option"

record delivery_store =
  pending_deliveries :: "pending_row list"
  message_states :: "recipient_row list"

definition empty_store :: delivery_store where
  "empty_store = \<lparr> pending_deliveries = [], message_states = [] \<rparr>"

datatype db_error = BadVariantAccess

definition nullable :: "'a list \<Rightarrow> 'a list option" where
  "nullable xs = (if xs = [] then None else Some xs)"

definition record_to_row :: "device_delivery_record \<Rightarrow> pending_row" where
  "record_to_row r =
     \<lparr> row_key = (rec_device_id r, rec_delivery_bucket r, rec_accepted_at r, rec_message_id r),
       row_columns = Some
         \<lparr> col_conversation_id = rec_conversation_id r, col_message_sequence = rec_message_sequence r,
           col_message_priority = rec_message_priority r,
           col_ciphertext_blob = nullable (rec_ciphertext_blob r),
           col_ephemeral_public_key = nullable (rec_ephemeral_public_key r),
           col_iv = nullable (rec_iv r), col_auth_tag = nullable (rec_auth_tag r),
           col_algorithm = e2e_algorithm_to_string (rec_algorithm r),
           col_protocol_version = e2e_protocol_version_to_int (rec_protocol_version r),
           col_one_time_prekey_id = rec_one_time_prekey_id r \<rparr>,
       row_state = rec_delivery_state r, row_attempt_count = rec_attempt_count r,
       row_next_retry_at = rec_next_retry_at r \<rparr>"

definition row_to_delivery_record :: "pending_row \<Rightarrow> db_error + device_delivery_record" where
  "row_to_delivery_record row = (case row_columns row of
     None \<Rightarrow> Inl BadVariantAccess
   | Some c \<Rightarrow> (case row_key row of (dev, bucket, acc, msg) \<Rightarrow> Inr
       \<lparr> rec_device_id = dev, rec_delivery_bucket = bucket, rec_accepted_at = acc, rec_message_id = msg,
         rec_conversation_id = col_conversation_id c, rec_message_sequence = col_message_sequence c,
         rec_message_priority = col_message_priority c, rec_delivery_state = row_state row,
         rec_attempt_count = row_attempt_count row, rec_next_retry_at = row_next_retry_at row,
         rec_ciphertext_blob = opt_list (col_ciphertext_blob c),
         rec_ephemeral_public_key = opt_list (col_ephemeral_public_key c),
         rec_iv = opt_list (col_iv c), rec_auth_tag = opt_list (col_auth_tag c),
         rec_algorithm = (case e2e_algorithm_from_string (col_algorithm c) of
             Some a \<Rightarrow> a | None \<Rightarrow> XChaCha20_Poly1305),
         rec_protocol_version = (case e2e_protocol_version_from_int (col_protocol_version c) of
             Some v \<Rightarrow> v | None \<Rightarrow> V1_Signal_PQXDH_DoubleRatchet),
         rec_one_time_prekey_id = col_one_time_prekey_id c \<rparr>))"

definition row_to_recipient_state :: "recipient_row \<Rightarrow> db_error + recipient_delivery_state" where
  "row_to_recipient_state row = (case rr_user_id row of
     None \<Rightarrow> Inl BadVariantAccess
   | Some u \<Rightarrow> Inr
       \<lparr> rds_message_id = fst (rr_key row), rds_recipient_device_id = snd (rr_key row),
         rds_recipient_user_id = u, rds_delivery_state = rr_state row,
         rds_delivered_at = rr_delivered_at row, rds_read_at = rr_read_at row \<rparr>)"

text \<open>Decodes the rows of a result set; the first row that throws aborts.\<close>

fun decode_all :: "('a \<Rightarrow> db_error + 'b) \<Rightarrow> 'a list \<Rightarrow> db_error + 'b list" where
  "decode_all f [] = Inr []"
| "decode_all f (x # xs) = (case f x of
     Inl e \<Rightarrow> Inl e
   | Inr y \<Rightarrow> (case decode_all f xs of Inl e \<Rightarrow> Inl e | Inr ys \<Rightarrow> Inr (y # ys)))"

text \<open>An \<open>INSERT\<close> or \<open>UPDATE\<close> on a table whose rows have a key: the row of the
  key is replaced, or a new one is added.\<close>

definition upsert :: "('r \<Rightarrow> 'k) \<Rightarrow> 'k \<Rightarrow> ('r \<Rightarrow> 'r) \<Rightarrow> 'r \<Rightarrow> 'r list \<Rightarrow> 'r list" where
  "upsert key k f fresh rows =
    (if k \<in> key ` set rows then map (\<lambda>r. if key r = k then f r else r) rows else rows @ [fresh])"

section \<open>Repository operations\<close>

definition save_pending_deliveries :: "device_delivery_record list \<Rightarrow> delivery_store \<Rightarrow> delivery_store" where
  "save_pending_deliveries records s =
     foldl (\<lambda>s r. s\<lparr> pending_deliveries := upsert row_key (row_key (record_to_row r))
                       (\<lambda>_. record_to_row r) (record_to_row r) (pending_deliveries s) \<rparr>) s records"

definition row_order :: "pending_row \<Rightarrow> time_point \<times> string" where
  "row_order row = (case row_key row of (dev, bucket, acc, msg) \<Rightarrow> (acc, message_id_to_string msg))"

definition fetch_pending_for_device ::
    "device_id \<Rightarrow> string \<Rightarrow> nat \<Rightarrow> delivery_store \<Rightarrow> db_error + device_delivery_record list" where
  "fetch_pending_for_device d bucket limit s =
     decode_all row_to_delivery_record
       (take limit (sort_key row_order
         (filter (\<lambda>r. fst (row_key r) = d \<and> fst (snd (row_key r)) = bucket) (pending_deliveries s))))"

definition update_device_delivery_status :: "device_id \<Rightarrow> string \<Rightarrow> time_point \<Rightarrow> message_id
    \<Rightarrow> delivery_state \<Rightarrow> int \<Rightarrow> time_point option \<Rightarrow> delivery_store \<Rightarrow> delivery_store" where
  "update_device_delivery_status d bucket accepted_at msg st attempts next_retry s =
     s\<lparr> pending_deliveries := upsert row_key (d, bucket, accepted_at, msg)
          (\<lambda>r. r\<lparr> row_state := st, row_attempt_count := attempts, row_next_retry_at := next_retry \<rparr>)
          \<lparr> row_key = (d, bucket, accepted_at, msg), row_columns = None, row_state = st,
            row_attempt_count = attempts, row_next_retry_at = next_retry \<rparr>
          (pending_deliveries s) \<rparr>"

definition state_to_row :: "recipient_delivery_state \<Rightarrow> recipient_row" where
  "state_to_row st =
     \<lparr> rr_key = (rds_message_id st, rds_recipient_device_id st), rr_user_id = Some (rds_recipient_user_id st),
       rr_state = rds_delivery_state st, rr_delivered_at = rds_delivered_at st, rr_read_at = rds_read_at st \<rparr>"

definition save_recipient_delivery_states ::
    "recipient_delivery_state list \<Rightarrow> delivery_store \<Rightarrow> delivery_store" where
  "save_recipient_delivery_states states s =
     foldl (\<lambda>s st. s\<lparr> message_states := upsert rr_key (rr_key (state_to_row st))
                        (\<lambda>_. state_to_row st) (state_to_row st) (message_states s) \<rparr>) s states"

definition record_delivery_ack :: "message_id \<Rightarrow> device_id \<Rightarrow> time_point \<Rightarrow> delivery_store \<Rightarrow> delivery_store" where
  "record_delivery_ack msg d delivered_at s =
     s\<lparr> message_states := upsert rr_key (msg, d)
          (\<lambda>r. r\<lparr> rr_state := Delivered, rr_delivered_at := Some delivered_at \<rparr>)
          \<lparr> rr_key = (msg, d), rr_user_id = None, rr_state = Delivered,
            rr_delivered_at = Some delivered_at, rr_read_at = None \<rparr> (message_states s) \<rparr>"

definition record_read_ack :: "message_id \<Rightarrow> device_id \<Rightarrow> time_point \<Rightarrow> delivery_store \<Rightarrow> delivery_store" where
  "record_read_ack msg d read_at s =
     s\<lparr> message_states := upsert rr_key (msg, d)
          (\<lambda>r. r\<lparr> rr_state := Read, rr_read_at := Some read_at \<rparr>)
          \<lparr> rr_key = (msg, d), rr_user_id = None, rr_state = Read,
            rr_delivered_at = None, rr_read_at = Some read_at \<rparr> (message_states s) \<rparr>"

definition message_rows :: "message_id \<Rightarrow> delivery_store \<Rightarrow> recipient_row list" where
  "message_rows msg s =
     sort_key (\<lambda>r. snd (rr_key r)) (filter (\<lambda>r. fst (rr_key r) = msg) (message_states s))"

definition get_delivery_states_for_message ::
    "message_id \<Rightarrow> delivery_store \<Rightarrow> db_error + recipient_delivery_state list" where
  "get_delivery_states_for_message msg s = decode_all row_to_recipient_state (message_rows msg s)"

definition update_delivery_state_monotonic ::
    "message_id \<Rightarrow> device_id \<Rightarrow> delivery_state \<Rightarrow> time_point \<Rightarrow> delivery_store \<Rightarrow> bool \<times> delivery_store" where
  "update_delivery_state_monotonic msg d new_state updated_at s =
    (case filter (\<lambda>r. rr_key r = (msg, d)) (message_states s) of
       [] \<Rightarrow> (False, s)
     | row # _ \<Rightarrow>
        (let current_state = rr_state row in
         if is_idempotent current_state new_state then (True, s)
         else if is_regression current_state new_state \<or> \<not> can_transition current_state new_state
         then (False, s)
         else
          (let delivered_at = (if new_state = Delivered
                 then (case rr_delivered_at row of None \<Rightarrow> Some updated_at | Some t \<Rightarrow> Some t)
                 else rr_delivered_at row)
           in (True, s\<lparr> message_states := upsert rr_key (msg, d)
                 (\<lambda>r. r\<lparr> rr_state := new_state, rr_delivered_at := delivered_at \<rparr>)
                 \<lparr> rr_key = (msg, d), rr_user_id = None, rr_state = new_state,
                   rr_delivered_at = delivered_at, rr_read_at = None \<rparr> (message_states s) \<rparr>))))"

definition get_delivery_record_for_device ::
    "device_id \<Rightarrow> message_id \<Rightarrow> delivery_store \<Rightarrow> db_error + device_delivery_record option" where
  "get_delivery_record_for_device d msg s =
    (case filter (\<lambda>r. fst (row_key r) = d \<and> snd (snd (snd (row_key r))) = msg) (pending_deliveries s) of
       [] \<Rightarrow> Inr None
     | row # _ \<Rightarrow> (case row_to_delivery_record row of Inl e \<Rightarrow> Inl e | Inr r \<Rightarrow> Inr (Some r)))"

section \<open>Delivery summary\<close>

record read_status =
  rst_user_id :: user_id
  rst_read_state :: read_state
  rst_read_at :: "time_point option"
  rst_reader_device_id :: "device_id option"

record device_status =
  dst_device_id :: device_id
  dst_recipient_user_id :: user_id
  dst_delivery_state :: delivery_state
  dst_delivered_at :: "time_point option"

record delivery_summary =
  sum_message_id :: message_id
  total_targets :: nat
  delivered_targets :: nat
  pending_targets :: nat
  expired_targets :: nat
  device_statuses :: "device_status list"
  read_statuses :: "user_id \<rightharpoonup> read_status"

definition note_read :: "recipient_row \<Rightarrow> user_id \<Rightarrow> read_status \<Rightarrow> read_status" where
  "note_read row u st0 =
    (let st = st0\<lparr> rst_user_id := u \<rparr> in
     case rr_read_at row of
       None \<Rightarrow> st
     | Some t \<Rightarrow>
        if rst_read_state st \<noteq> RS_Read \<or> rst_read_at st = None \<or> t < the (rst_read_at st)
        then st\<lparr> rst_read_state := RS_Read, rst_read_at := Some t,
                 rst_reader_device_id := Some (snd (rr_key row)) \<rparr>
        else st)"

definition unread_status :: read_status where
  "unread_status = \<lparr> rst_user_id = [], rst_read_state = RS_Unread, rst_read_at = None,
     rst_reader_device_id = None \<rparr>"

definition summarize_row :: "recipient_row \<Rightarrow> delivery_summary \<Rightarrow> db_error + delivery_summary" where
  "summarize_row row m = (case rr_user_id row of
     None \<Rightarrow> Inl BadVariantAccess
   | Some u \<Rightarrow>
      (let st = rr_state row;
           m1 = m\<lparr> total_targets := total_targets m + 1 \<rparr>;
           m2 = (if st = Delivered then m1\<lparr> delivered_targets := delivered_targets m1 + 1 \<rparr>
                 else if st = Expired then m1\<lparr> expired_targets := expired_targets m1 + 1 \<rparr>
                 else m1\<lparr> pending_targets := pending_targets m1 + 1 \<rparr>);
           old = (case read_statuses m2 u of Some x \<Rightarrow> x | None \<Rightarrow> unread_status)
       in Inr (m2\<lparr> read_statuses := (read_statuses m2)(u \<mapsto> note_read row u old),
                  device_statuses := device_statuses m2 @
                    [\<lparr> dst_device_id = snd (rr_key row), dst_recipient_user_id = u,
                       dst_delivery_state = st, dst_delivered_at = rr_delivered_at row \<rparr>] \<rparr>)))"

fun summarize_rows :: "recipient_row list \<Rightarrow> delivery_summary \<Rightarrow> db_error + delivery_summary" where
  "summarize_rows [] m = Inr m"
| "summarize_rows (row # rows) m =
     (case summarize_row row m of Inl e \<Rightarrow> Inl e | Inr m' \<Rightarrow> summarize_rows rows m')"

definition get_message_delivery_summary ::
    "message_id \<Rightarrow> delivery_store \<Rightarrow> db_error + delivery_summary option" where
  "get_message_delivery_summary msg s =
    (let rows = message_rows msg s in
     if rows = [] then Inr None
     else case summarize_rows rows
            \<lparr> sum_message_id = msg, total_targets = 0, delivered_targets = 0, pending_targets = 0,
              expired_targets = 0, device_statuses = [], read_statuses = Map.empty \<rparr> of
         Inl e \<Rightarrow> Inl e
       | Inr m \<Rightarrow> Inr (Some m))"

section \<open>Lemmas on the tables\<close>

lemma upsert_keys:
  assumes "\<And>r. key r = k \<Longrightarrow> key (f r) = k" "key fresh = k"
  shows "map key (upsert key k f fresh rows) =
    (if k \<in> key ` set rows then map key rows else map key rows @ [k])"
  using assms by (auto simp: upsert_def)

lemma upsert_distinct:
  assumes "\<And>r. key r = k \<Longrightarrow> key (f r) = k" "key fresh = k" "distinct (map key rows)"
  shows "distinct (map key (upsert key k f fresh rows))"
  using assms(3) upsert_keys [of key k f fresh rows, OF assms(1,2)] by auto

lemma upsert_other:
  assumes "\<And>r. key r = k \<Longrightarrow> key (f r) = k" "key fresh = k" "x \<noteq> k"
  shows "filter (\<lambda>r. key r = x) (upsert key k f fresh rows) = filter (\<lambda>r. key r = x) rows"
proof -
  have "filter (\<lambda>r. key r = x) (map (\<lambda>r. if key r = k then f r else r) rows) = filter (\<lambda>r. key r = x) rows"
  proof (induction rows)
    case (Cons a rows)
    then show ?case using assms(1) [of a] assms(3) by (cases "key a = k") simp_all
  qed simp
  then show ?thesis using assms(2,3) by (simp add: upsert_def)
qed

lemma filter_key_distinct:
  "distinct (map key rows) \<Longrightarrow> r \<in> set rows \<Longrightarrow> filter (\<lambda>x. key x = key r) rows = [r]"
proof (induction rows)
  case (Cons a rows)
  show ?case
  proof (cases "a = r")
    case True
    with Cons.prems(1) have "key r \<notin> key ` set rows" by simp
    then have "key x \<noteq> key r" if "x \<in> set rows" for x using that by (metis imageI)
    then have "filter (\<lambda>x. key x = key r) rows = []" by (simp add: filter_empty_conv)
    with True show ?thesis by simp
  next
    case False
    with Cons.prems have "r \<in> set rows" by simp
    moreover from this Cons.prems(1) have "key a \<noteq> key r" by (metis distinct.simps(2) image_eqI list.simps(9) set_map)
    ultimately show ?thesis using Cons by simp
  qed
qed simp

lemma upsert_same:
  assumes "\<And>r. key r = k \<Longrightarrow> key (f r) = k" "key fresh = k" "distinct (map key rows)"
  shows "filter (\<lambda>r. key r = k) (upsert key k f fresh rows) =
    [case filter (\<lambda>r. key r = k) rows of [] \<Rightarrow> fresh | r # _ \<Rightarrow> f r]"
proof (cases "k \<in> key ` set rows")
  case True
  then obtain r where r: "r \<in> set rows" "key r = k" by auto
  have sel: "filter (\<lambda>x. key x = k) rows = [r]" using filter_key_distinct [OF assms(3) r(1)] r(2) by simp
  have "filter (\<lambda>x. key x = k) (map (\<lambda>r. if key r = k then f r else r) rows)
      = map f (filter (\<lambda>x. key x = k) rows)"
  proof (induction rows)
    case (Cons a rows)
    then show ?case using assms(1) [of a] by (cases "key a = k") simp_all
  qed simp
  with True sel show ?thesis by (simp add: upsert_def)
next
  case False
  then have "filter (\<lambda>x. key x = k) rows = []" by (auto simp: filter_empty_conv)
  with False assms(2) show ?thesis by (simp add: upsert_def)
qed

definition store_ok :: "delivery_store \<Rightarrow> bool" where
  "store_ok s = (distinct (map row_key (pending_deliveries s)) \<and> distinct (map rr_key (message_states s)))"

lemma update_status_ok [simp]:
  "store_ok s \<Longrightarrow> store_ok (update_device_delivery_status d b a m st n nr s)"
  by (auto simp: store_ok_def update_device_delivery_status_def intro!: upsert_distinct)

lemma ack_ok [simp]:
  "store_ok s \<Longrightarrow> store_ok (record_delivery_ack m d t s)"
  "store_ok s \<Longrightarrow> store_ok (record_read_ack m d t s)"
  by (auto simp: store_ok_def record_delivery_ack_def record_read_ack_def intro!: upsert_distinct)

lemma foldl_inv: "P s \<Longrightarrow> (\<And>s x. P s \<Longrightarrow> P (f s x)) \<Longrightarrow> P (foldl f s xs)"
  by (induction xs arbitrary: s) auto

lemma save_ok [simp]:
  "store_ok s \<Longrightarrow> store_ok (save_pending_deliveries rs s)"
  "store_ok s \<Longrightarrow> store_ok (save_recipient_delivery_states sts s)"
  unfolding save_pending_deliveries_def save_recipient_delivery_states_def
  by (erule foldl_inv, simp add: store_ok_def upsert_distinct)+

text \<open>The row of a key, if there is one.\<close>

definition pending_row_at :: "pending_key \<Rightarrow> delivery_store \<Rightarrow> pending_row option" where
  "pending_row_at k s = (case filter (\<lambda>r. row_key r = k) (pending_deliveries s) of [] \<Rightarrow> None | r # _ \<Rightarrow> Some r)"

definition state_row_at :: "message_id \<times> device_id \<Rightarrow> delivery_store \<Rightarrow> recipient_row option" where
  "state_row_at k s = (case filter (\<lambda>r. rr_key r = k) (message_states s) of [] \<Rightarrow> None | r # _ \<Rightarrow> Some r)"

lemma pending_row_at_update:
  assumes "store_ok s"
  shows "pending_row_at k (update_device_delivery_status d b a m st n nr s) =
    (if k = (d, b, a, m)
     then Some ((case pending_row_at k s of Some r \<Rightarrow> r
          | None \<Rightarrow> \<lparr> row_key = k, row_columns = None, row_state = st, row_attempt_count = n, row_next_retry_at = nr \<rparr>)
        \<lparr> row_state := st, row_attempt_count := n, row_next_retry_at := nr \<rparr>)
     else pending_row_at k s)"
proof (cases "k = (d, b, a, m)")
  case True
  let ?rows = "pending_deliveries s"
  have dist: "distinct (map row_key ?rows)" using assms by (simp add: store_ok_def)
  show ?thesis
    unfolding pending_row_at_def update_device_delivery_status_def True
    by (cases "filter (\<lambda>r. row_key r = (d, b, a, m)) ?rows") (simp_all add: upsert_same dist)
next
  case False
  then show ?thesis by (simp add: pending_row_at_def update_device_delivery_status_def upsert_other)
qed

lemma state_row_at_ack:
  assumes "store_ok s"
  shows "state_row_at k (record_delivery_ack m d t s) =
    (if k = (m, d)
     then Some ((case state_row_at k s of Some r \<Rightarrow> r
          | None \<Rightarrow> \<lparr> rr_key = k, rr_user_id = None, rr_state = Delivered, rr_delivered_at = None, rr_read_at = None \<rparr>)
        \<lparr> rr_state := Delivered, rr_delivered_at := Some t \<rparr>)
     else state_row_at k s)"
proof (cases "k = (m, d)")
  case True
  let ?rows = "message_states s"
  have dist: "distinct (map rr_key ?rows)" using assms by (simp add: store_ok_def)
  show ?thesis
    unfolding state_row_at_def record_delivery_ack_def True
    by (cases "filter (\<lambda>r. rr_key r = (m, d)) ?rows") (simp_all add: upsert_same dist)
next
  case False
  then show ?thesis by (simp add: state_row_at_def record_delivery_ack_def upsert_other)
qed

section \<open>Monotone updates and summaries\<close>

lemma decode_encode_record:
  "row_to_delivery_record (record_to_row r) = Inr (r
     \<lparr> rec_algorithm := (if rec_algorithm r = Alg_Unspecified then XChaCha20_Poly1305 else rec_algorithm r),
       rec_protocol_version := (if rec_protocol_version r = PV_Unspecified
          then V1_Signal_PQXDH_DoubleRatchet else rec_protocol_version r) \<rparr>)"
proof -
  have n: "opt_list (nullable xs) = xs" for xs :: "'b list" by (simp add: nullable_def)
  have "(case e2e_algorithm_from_string (e2e_algorithm_to_string a) of Some x \<Rightarrow> x | None \<Rightarrow> XChaCha20_Poly1305)
      = (if a = Alg_Unspecified then XChaCha20_Poly1305 else a)" for a
    by (cases a) (simp_all add: e2e_algorithm_from_string_def e2e_algorithm_to_string_def)
  moreover have "(case e2e_protocol_version_from_int (e2e_protocol_version_to_int v) of
        Some x \<Rightarrow> x | None \<Rightarrow> V1_Signal_PQXDH_DoubleRatchet)
      = (if v = PV_Unspecified then V1_Signal_PQXDH_DoubleRatchet else v)" for v
    by (cases v) (simp_all add: e2e_protocol_version_from_int_def e2e_protocol_version_to_int_def)
  ultimately show ?thesis
    by (cases r) (simp add: row_to_delivery_record_def record_to_row_def n)
qed

lemma pending_row_at_save:
  assumes "store_ok s"
  shows "pending_row_at (row_key (record_to_row r)) (save_pending_deliveries [r] s) = Some (record_to_row r)"
proof -
  let ?k = "row_key (record_to_row r)"
  have "distinct (map row_key (pending_deliveries s))" using assms by (simp add: store_ok_def)
  then have "filter (\<lambda>x. row_key x = ?k) (upsert row_key ?k (\<lambda>_. record_to_row r) (record_to_row r)
      (pending_deliveries s)) = [record_to_row r]"
    by (subst upsert_same) (simp_all split: list.splits)
  then show ?thesis by (simp add: pending_row_at_def save_pending_deliveries_def)
qed

lemma monotonic_update_row:
  assumes "store_ok s"
  shows "update_delivery_state_monotonic msg d st t s =
    (case state_row_at (msg, d) s of
       None \<Rightarrow> (False, s)
     | Some row \<Rightarrow>
        if validate_transition (rr_state row) st \<noteq> Inr () then (False, s)
        else if rr_state row = st then (True, s)
        else (True, snd (update_delivery_state_monotonic msg d st t s)))"
  by (auto simp: update_delivery_state_monotonic_def state_row_at_def Let_def validate_transition_iff
      is_idempotent_def can_transition_def is_regression_def split: list.splits delivery_state.splits)

lemma monotonic_update_effect:
  assumes "store_ok s" "update_delivery_state_monotonic msg d st t s = (True, s')"
    and "state_row_at (msg, d) s = Some row" "rr_state row \<noteq> st"
  shows "state_row_at k s' = (if k = (msg, d)
    then Some (row\<lparr> rr_state := st, rr_delivered_at :=
      (if st = Delivered \<and> rr_delivered_at row = None then Some t else rr_delivered_at row) \<rparr>)
    else state_row_at k s)"
proof -
  obtain rest where rows: "filter (\<lambda>r. rr_key r = (msg, d)) (message_states s) = row # rest"
    using assms(3) by (auto simp: state_row_at_def split: list.splits)
  have dist: "distinct (map rr_key (message_states s))" using assms(1) by (simp add: store_ok_def)
  define del where "del = (if st = Delivered then (case rr_delivered_at row of None \<Rightarrow> Some t | Some t \<Rightarrow> Some t)
    else rr_delivered_at row)"
  have s': "s' = s\<lparr> message_states := upsert rr_key (msg, d)
      (\<lambda>r. r\<lparr> rr_state := st, rr_delivered_at := del \<rparr>)
      \<lparr> rr_key = (msg, d), rr_user_id = None, rr_state = st, rr_delivered_at = del, rr_read_at = None \<rparr>
      (message_states s) \<rparr>"
    using assms(2,4) rows
    by (simp add: update_delivery_state_monotonic_def is_idempotent_def Let_def del_def split: if_splits)
  have "del = (if st = Delivered \<and> rr_delivered_at row = None then Some t else rr_delivered_at row)"
    by (auto simp: del_def split: option.splits)
  then show ?thesis
    by (cases "k = (msg, d)") (simp_all add: state_row_at_def s' upsert_other upsert_same dist rows)
qed

lemma summarize_rows_counts:
  assumes "summarize_rows rows m = Inr m'"
  shows "total_targets m' = total_targets m + length rows
    \<and> delivered_targets m' = delivered_targets m + length (filter (\<lambda>r. rr_state r = Delivered) rows)
    \<and> expired_targets m' = expired_targets m + length (filter (\<lambda>r. rr_state r = Expired) rows)
    \<and> pending_targets m' = pending_targets m
        + length (filter (\<lambda>r. rr_state r \<noteq> Delivered \<and> rr_state r \<noteq> Expired) rows)
    \<and> map dst_device_id (device_statuses m') = map dst_device_id (device_statuses m) @ map (snd \<circ> rr_key) rows"
  using assms
proof (induction rows arbitrary: m)
  case (Cons row rows)
  then obtain m1 where m1: "summarize_row row m = Inr m1" "summarize_rows rows m1 = Inr m'"
    by (auto split: sum.splits)
  have "total_targets m1 = total_targets m + 1"
    "delivered_targets m1 = delivered_targets m + (if rr_state row = Delivered then 1 else 0)"
    "expired_targets m1 = expired_targets m + (if rr_state row = Expired then 1 else 0)"
    "pending_targets m1 = pending_targets m + (if rr_state row \<noteq> Delivered \<and> rr_state row \<noteq> Expired then 1 else 0)"
    "map dst_device_id (device_statuses m1) = map dst_device_id (device_statuses m) @ [snd (rr_key row)]"
    using m1(1) by (auto simp: summarize_row_def Let_def split: option.splits if_splits)
  with Cons.IH [OF m1(2)] show ?case by simp
qed simp

section \<open>Properties\<close>


definition sample_record :: "device_id \<Rightarrow> byte \<Rightarrow> delivery_state \<Rightarrow> device_delivery_record" where
  "sample_record d n st =
     \<lparr> rec_device_id = d, rec_delivery_bucket = ''202611'', rec_accepted_at = 5,
       rec_message_id = n # replicate 15 1, rec_conversation_id = replicate 16 1, rec_message_sequence = 1,
       rec_message_priority = Normal, rec_delivery_state = st, rec_attempt_count = 1,
       rec_next_retry_at = None, rec_ciphertext_blob = ''c'', rec_ephemeral_public_key = [], rec_iv = [],
       rec_auth_tag = [], rec_algorithm = XChaCha20_Poly1305,
       rec_protocol_version = V1_Signal_PQXDH_DoubleRatchet, rec_one_time_prekey_id = None \<rparr>"

lemma empty_store_ok [simp]: "store_ok empty_store"
  by (simp add: store_ok_def empty_store_def)


text \<open>C17: the monotone update commits exactly the transitions that the guard
  validates, for the one row it names: it succeeds if and only if the row exists
  and the guard accepts, a refused or idempotent update changes nothing, and a
  committed one sets the state, leaves every other row alone and never
  overwrites a recorded delivery time.\<close>

theorem monotonic_update_guarded:
  assumes "store_ok s" "update_delivery_state_monotonic msg d st t s = (ok, s')"
  shows "ok = (case state_row_at (msg, d) s of None \<Rightarrow> False
                | Some row \<Rightarrow> validate_transition (rr_state row) st = Inr ())
    \<and> (\<not> ok \<longrightarrow> s' = s)
    \<and> (ok \<longrightarrow> map_option rr_state (state_row_at (msg, d) s') = Some st)
    \<and> (k \<noteq> (msg, d) \<longrightarrow> state_row_at k s' = state_row_at k s)
    \<and> (\<forall>row t0. state_row_at (msg, d) s = Some row \<and> rr_delivered_at row = Some t0 \<longrightarrow>
         map_option rr_delivered_at (state_row_at (msg, d) s') = Some (Some t0))"
proof (cases "state_row_at (msg, d) s")
  case None
  then show ?thesis using monotonic_update_row [OF assms(1), of msg d st t] assms(2) by simp
next
  case (Some row)
  note R = monotonic_update_row [OF assms(1), of msg d st t, unfolded Some option.case assms(2)]
  show ?thesis
  proof (cases "validate_transition (rr_state row) st = Inr () \<and> rr_state row \<noteq> st")
    case True
    with R assms(2) have "ok" by (auto split: if_splits)
    with monotonic_update_effect [OF assms(1) _ Some] assms(2) True Some show ?thesis by auto
  next
    case False
    with R Some show ?thesis by (auto split: if_splits simp: validate_transition_iff)
  qed
qed

theorem monotonic_update_guarded_witness:
  "fst (update_delivery_state_monotonic [1] ''d'' Queued 9
      (record_delivery_ack [1] ''d'' 3 empty_store)) = False"
proof -
  let ?s = "record_delivery_ack [1] ''d'' 3 empty_store"
  obtain ok s' where u: "update_delivery_state_monotonic [1] ''d'' Queued 9 ?s = (ok, s')" by fastforce
  have "state_row_at ([1], ''d'') ?s = Some \<lparr> rr_key = ([1], ''d''), rr_user_id = None, rr_state = Delivered,
      rr_delivered_at = Some 3, rr_read_at = None \<rparr>"
    by (simp add: state_row_at_def record_delivery_ack_def upsert_def empty_store_def)
  then show ?thesis
    using monotonic_update_guarded [OF ack_ok(1) [OF empty_store_ok] u] u
    by (simp add: validate_transition_iff can_transition_def)
qed



end
