(* ===== verification/Outbox_Event.thy ===== *)
theory Outbox_Event
  imports Messaging_Types
begin

text \<open>
  The events of the transactional outbox (\<open>src/src/messaging/domain/outbox_event.hpp\<close>).
  The JSON text of an event is represented by the record of the fields it is
  printed from, the type parameter of the event.
\<close>

datatype outbox_event_type =
    ConversationCreated | ParticipantJoined | ParticipantLeft | ParticipantRemoved
  | GroupMetadataUpdated | ConversationClosed | MessageSent | MessageDelivered | MessageRead

definition outbox_event_type_to_string :: "outbox_event_type \<Rightarrow> string" where
  "outbox_event_type_to_string type = (case type of
       ConversationCreated \<Rightarrow> ''ConversationCreated''
     | ParticipantJoined \<Rightarrow> ''ParticipantJoined''
     | ParticipantLeft \<Rightarrow> ''ParticipantLeft''
     | ParticipantRemoved \<Rightarrow> ''ParticipantRemoved''
     | GroupMetadataUpdated \<Rightarrow> ''GroupMetadataUpdated''
     | ConversationClosed \<Rightarrow> ''ConversationClosed''
     | MessageSent \<Rightarrow> ''MessageSent''
     | MessageDelivered \<Rightarrow> ''MessageDelivered''
     | MessageRead \<Rightarrow> ''MessageRead'')"

definition outbox_event_type_from_string :: "string \<Rightarrow> outbox_event_type option" where
  "outbox_event_type_from_string sv =
    (if sv = ''ConversationCreated'' then Some ConversationCreated
     else if sv = ''ParticipantJoined'' then Some ParticipantJoined
     else if sv = ''ParticipantLeft'' then Some ParticipantLeft
     else if sv = ''ParticipantRemoved'' then Some ParticipantRemoved
     else if sv = ''GroupMetadataUpdated'' then Some GroupMetadataUpdated
     else if sv = ''ConversationClosed'' then Some ConversationClosed
     else if sv = ''MessageSent'' then Some MessageSent
     else if sv = ''MessageDelivered'' then Some MessageDelivered
     else if sv = ''MessageRead'' then Some MessageRead
     else None)"

record 'p outbox_event =
  ev_event_id :: string
  ev_conversation_id :: conversation_id
  ev_event_type :: outbox_event_type
  ev_payload :: 'p
  ev_created_at :: time_point

lemma outbox_event_type_strings:
  "outbox_event_type_from_string s = Some t \<longleftrightarrow> s = outbox_event_type_to_string t"
  by (cases t) (auto simp: outbox_event_type_from_string_def outbox_event_type_to_string_def)

end
