(* ===== verification/Delivery_Pipeline.thy ===== *)
theory Delivery_Pipeline
  imports Delivery_Scheduler Connections Delivery_Store Outbox_Event
begin

text \<open>
  The asynchronous delivery pipeline of messaging: \<open>DeliveryWorker\<close>,
  \<open>DurableDeliveryRecoveryService\<close>, \<open>RealtimeDeliveryAccelerator\<close> and
  \<open>DeliveryService\<close>, over the scheduler, the connection registry and the delivery
  tables.  The transport (\<open>send_envelope\<close>, channel health) and the randomised
  backoff are parameters.  The clock readings of one call are one instant.  All
  collaborators are configured, except where the code is given an optional one.
\<close>

section \<open>State and parameters\<close>

text \<open>The fields of the JSON object that the delivery events carry.\<close>

record delivered_payload =
  pay_message_id :: string
  pay_recipient_device_id :: device_id
  pay_recipient_user_id :: user_id
  pay_delivered_at_unix_ms :: int

record pipeline =
  pl_scheduler :: scheduler
  pl_registry :: registry
  pl_store :: delivery_store
  pl_outbox :: "delivered_payload outbox_event list"

record pipeline_env =
  scheduler_cfg :: scheduler_config
  capacity_cfg :: capacity_config
  channel_active :: "channel \<Rightarrow> bool"
  send_envelope :: "channel \<Rightarrow> delivery_task \<Rightarrow> delivery_attempt_result"
  next_delay :: "int \<Rightarrow> duration"
  worker_max_retry_attempts :: int

datatype pipeline_error = BucketFailure bucket_error | StoreFailure db_error

section \<open>DeliveryWorker\<close>

definition set_status :: "delivery_task \<Rightarrow> string \<Rightarrow> delivery_state \<Rightarrow> int \<Rightarrow> time_point option
    \<Rightarrow> pipeline \<Rightarrow> pipeline" where
  "set_status task bucket st attempts next_retry p =
     p\<lparr> pl_store := update_device_delivery_status (task_recipient_device_id task) bucket
          (task_accepted_at task) (task_message_id task) st attempts next_retry (pl_store p) \<rparr>"

definition thirty_days_ms :: int where
  "thirty_days_ms = 30 * 24 * 3600000"

definition delivered_event :: "string \<Rightarrow> delivery_task \<Rightarrow> time_point \<Rightarrow> delivered_payload outbox_event" where
  "delivered_event event_id task delivered_at =
     \<lparr> ev_event_id = event_id, ev_conversation_id = task_conversation_id task,
       ev_event_type = MessageDelivered,
       ev_payload = \<lparr> pay_message_id = message_id_to_string (task_message_id task),
         pay_recipient_device_id = task_recipient_device_id task,
         pay_recipient_user_id = task_recipient_user_id task,
         pay_delivered_at_unix_ms = delivered_at \<rparr>,
       ev_created_at = delivered_at \<rparr>"

definition on_success :: "string \<Rightarrow> time_point \<Rightarrow> delivery_task \<Rightarrow> string \<Rightarrow> pipeline \<Rightarrow> pipeline" where
  "on_success event_id now task bucket p =
    (let p1 = p\<lparr> pl_store := record_delivery_ack (task_message_id task)
                   (task_recipient_device_id task) now (pl_store p) \<rparr>;
         p2 = set_status task bucket Delivered (task_attempt_count task) None p1
     in p2\<lparr> pl_outbox := pl_outbox p2 @ [delivered_event event_id task now] \<rparr>)"

definition on_transient_failure ::
    "pipeline_env \<Rightarrow> time_point \<Rightarrow> delivery_task \<Rightarrow> string \<Rightarrow> pipeline \<Rightarrow> pipeline" where
  "on_transient_failure env now task0 bucket p =
    (let task = task0\<lparr> task_attempt_count := task_attempt_count task0 + 1 \<rparr>;
         expires = (case task_expires_at task of Some e \<Rightarrow> e | None \<Rightarrow> now + thirty_days_ms);
         can_retry = delivery_is_retryable (worker_max_retry_attempts env) TransientFailure
                       (task_attempt_count task) (Some expires) now
     in if can_retry then
          (let next_retry = now + next_delay env (task_attempt_count task);
               task' = task\<lparr> task_scheduled_at := next_retry \<rparr>;
               p1 = set_status task' bucket RetryWait (task_attempt_count task') (Some next_retry) p
           in p1\<lparr> pl_scheduler := snd (schedule (scheduler_cfg env) now task' (pl_scheduler p1)) \<rparr>)
        else set_status task bucket Expired (task_attempt_count task) None p)"

definition dispatch_task :: "pipeline_env \<Rightarrow> string \<Rightarrow> time_point \<Rightarrow> time_point \<Rightarrow> delivery_task
    \<Rightarrow> pipeline \<Rightarrow> (pipeline_error + bool) \<times> pipeline" where
  "dispatch_task env event_id now steady task p =
    (case from_time_point (task_accepted_at task) of
       Inl e \<Rightarrow> (Inl (BucketFailure e), p)
     | Inr b \<Rightarrow>
        (let bucket = bucket_value b in
         case get_channel (capacity_cfg env) (channel_active env) steady (task_recipient_device_id task)
                (pl_registry p) of
           None \<Rightarrow> (Inr True, set_status task bucket Queued (task_attempt_count task) None p)
         | Some ch \<Rightarrow>
            if \<not> channel_active env ch
            then (Inr True, set_status task bucket Queued (task_attempt_count task) None p)
            else
             (let p1 = set_status task bucket Delivering (task_attempt_count task) None p in
              (Inr True, case send_envelope env ch task of
                 Success \<Rightarrow> on_success event_id now task bucket p1
               | RecipientOffline \<Rightarrow> set_status task bucket Queued (task_attempt_count task) None p1
               | TransientFailure \<Rightarrow> on_transient_failure env now task bucket p1
               | TerminalFailure \<Rightarrow> set_status task bucket Expired (task_attempt_count task) None p1))))"

definition process_single_task :: "pipeline_env \<Rightarrow> string \<Rightarrow> time_point \<Rightarrow> time_point \<Rightarrow> duration \<Rightarrow> pipeline
    \<Rightarrow> ((pipeline_error + bool) \<times> pipeline) wait_result" where
  "process_single_task env event_id now steady poll_timeout p =
    (case dequeue (scheduler_cfg env) poll_timeout (pl_scheduler p) of
       Blocked \<Rightarrow> Blocked
     | Returned (task_opt, s') \<Rightarrow>
        (let p1 = p\<lparr> pl_scheduler := s' \<rparr> in
         case task_opt of
           None \<Rightarrow> Returned (Inr False, p1)
         | Some task \<Rightarrow> Returned (dispatch_task env event_id now steady task p1)))"

section \<open>DurableDeliveryRecoveryService\<close>

record recovery_config =
  batch_size :: nat
  recovery_max_retry_attempts :: int
  max_delivery_ttl :: duration

definition default_recovery_config :: recovery_config where
  "default_recovery_config =
     \<lparr> batch_size = 100, recovery_max_retry_attempts = 5, max_delivery_ttl = 24 * 3600000 \<rparr>"

definition envelope_of_record :: "device_delivery_record \<Rightarrow> per_device_envelope" where
  "envelope_of_record r =
     \<lparr> env_recipient_user_id = [], env_recipient_device_id = [],
       env_protocol_version = rec_protocol_version r, env_algorithm = rec_algorithm r,
       env_ciphertext_blob = rec_ciphertext_blob r,
       env_ephemeral_public_key = rec_ephemeral_public_key r, env_iv = rec_iv r,
       env_auth_tag = rec_auth_tag r, env_one_time_prekey_id = rec_one_time_prekey_id r \<rparr>"

definition task_of_record :: "user_id \<Rightarrow> time_point \<Rightarrow> device_delivery_record \<Rightarrow> delivery_task" where
  "task_of_record user now r =
     \<lparr> task_message_id = rec_message_id r, task_conversation_id = rec_conversation_id r,
       task_recipient_device_id = rec_device_id r, task_recipient_user_id = user,
       task_priority = rec_message_priority r, task_attempt_count = rec_attempt_count r,
       task_accepted_at = rec_accepted_at r, task_scheduled_at = now, task_expires_at = None,
       task_envelope = envelope_of_record r \<rparr>"

definition resolve_user :: "message_id \<Rightarrow> device_id \<Rightarrow> delivery_store \<Rightarrow> db_error + user_id" where
  "resolve_user msg d s = (case get_delivery_states_for_message msg s of
       Inl e \<Rightarrow> Inl e
     | Inr states \<Rightarrow> (case filter (\<lambda>st. rds_recipient_device_id st = d) states of
           [] \<Rightarrow> Inr [] | st # _ \<Rightarrow> Inr (rds_recipient_user_id st)))"

definition expire_record :: "device_id \<Rightarrow> string \<Rightarrow> device_delivery_record \<Rightarrow> pipeline \<Rightarrow> pipeline" where
  "expire_record d bucket r p =
     p\<lparr> pl_store := update_device_delivery_status d bucket (rec_accepted_at r) (rec_message_id r)
          Expired (rec_attempt_count r) None (pl_store p) \<rparr>"

fun recover_loop :: "pipeline_env \<Rightarrow> recovery_config \<Rightarrow> time_point \<Rightarrow> device_id \<Rightarrow> string
    \<Rightarrow> device_delivery_record list \<Rightarrow> nat \<Rightarrow> pipeline \<Rightarrow> (pipeline_error + nat) \<times> pipeline" where
  "recover_loop env cfg now d bucket [] n p = (Inr n, p)"
| "recover_loop env cfg now d bucket (r # rs) n p =
    (if rec_delivery_state r \<noteq> Queued \<and> rec_delivery_state r \<noteq> Delivering
     then recover_loop env cfg now d bucket rs n p
     else if now - rec_accepted_at r > max_delivery_ttl cfg
     then recover_loop env cfg now d bucket rs n (expire_record d bucket r p)
     else case resolve_user (rec_message_id r) (rec_device_id r) (pl_store p) of
         Inl e \<Rightarrow> (Inl (StoreFailure e), p)
       | Inr user \<Rightarrow>
          (case schedule (scheduler_cfg env) now (task_of_record user now r) (pl_scheduler p) of
             (st, s') \<Rightarrow>
               let p1 = p\<lparr> pl_scheduler := s' \<rparr> in
               if st = Enqueued then recover_loop env cfg now d bucket rs (n + 1) p1 else (Inr n, p1)))"

definition recover_pending_for_device :: "pipeline_env \<Rightarrow> recovery_config \<Rightarrow> time_point \<Rightarrow> time_point
    \<Rightarrow> device_id \<Rightarrow> string \<Rightarrow> pipeline \<Rightarrow> (pipeline_error + nat) \<times> pipeline" where
  "recover_pending_for_device env cfg now steady d bucket p =
    (if \<not> is_online (capacity_cfg env) (channel_active env) steady d (pl_registry p) then (Inr 0, p)
     else case fetch_pending_for_device d bucket (batch_size cfg) (pl_store p) of
         Inl e \<Rightarrow> (Inl (StoreFailure e), p)
       | Inr records \<Rightarrow> recover_loop env cfg now d bucket records 0 p)"

fun sweep_loop :: "pipeline_env \<Rightarrow> recovery_config \<Rightarrow> time_point \<Rightarrow> device_id \<Rightarrow> string
    \<Rightarrow> device_delivery_record list \<Rightarrow> nat \<Rightarrow> pipeline \<Rightarrow> (pipeline_error + nat) \<times> pipeline" where
  "sweep_loop env cfg now d bucket [] n p = (Inr n, p)"
| "sweep_loop env cfg now d bucket (r # rs) n p =
    (if rec_delivery_state r \<noteq> RetryWait then sweep_loop env cfg now d bucket rs n p
     else if rec_attempt_count r \<ge> recovery_max_retry_attempts cfg
     then sweep_loop env cfg now d bucket rs n (expire_record d bucket r p)
     else if (case rec_next_retry_at r of Some t \<Rightarrow> t > now | None \<Rightarrow> False)
     then sweep_loop env cfg now d bucket rs n p
     else
      (let p1 = p\<lparr> pl_store := update_device_delivery_status d bucket (rec_accepted_at r)
                     (rec_message_id r) Queued (rec_attempt_count r) None (pl_store p) \<rparr>
       in case resolve_user (rec_message_id r) (rec_device_id r) (pl_store p1) of
         Inl e \<Rightarrow> (Inl (StoreFailure e), p1)
       | Inr user \<Rightarrow>
          (case schedule (scheduler_cfg env) now (task_of_record user now r) (pl_scheduler p1) of
             (st, s') \<Rightarrow>
               let p2 = p1\<lparr> pl_scheduler := s' \<rparr> in
               if st = Enqueued then sweep_loop env cfg now d bucket rs (n + 1) p2 else (Inr n, p2))))"

definition sweep_retries_for_device :: "pipeline_env \<Rightarrow> recovery_config \<Rightarrow> time_point \<Rightarrow> time_point
    \<Rightarrow> device_id \<Rightarrow> string \<Rightarrow> pipeline \<Rightarrow> (pipeline_error + nat) \<times> pipeline" where
  "sweep_retries_for_device env cfg now steady d bucket p =
    (if \<not> is_online (capacity_cfg env) (channel_active env) steady d (pl_registry p) then (Inr 0, p)
     else case fetch_pending_for_device d bucket (batch_size cfg) (pl_store p) of
         Inl e \<Rightarrow> (Inl (StoreFailure e), p)
       | Inr records \<Rightarrow> sweep_loop env cfg now d bucket records 0 p)"

fun purge_loop :: "recovery_config \<Rightarrow> time_point \<Rightarrow> device_id \<Rightarrow> string \<Rightarrow> device_delivery_record list
    \<Rightarrow> nat \<Rightarrow> pipeline \<Rightarrow> nat \<times> pipeline" where
  "purge_loop cfg now d bucket [] n p = (n, p)"
| "purge_loop cfg now d bucket (r # rs) n p =
    (if rec_delivery_state r = Delivered \<or> rec_delivery_state r = Read \<or> rec_delivery_state r = Expired
     then purge_loop cfg now d bucket rs n p
     else if now - rec_accepted_at r > max_delivery_ttl cfg
     then purge_loop cfg now d bucket rs (n + 1) (expire_record d bucket r p)
     else purge_loop cfg now d bucket rs n p)"

definition purge_expired_for_device :: "recovery_config \<Rightarrow> time_point \<Rightarrow> device_id \<Rightarrow> string \<Rightarrow> pipeline
    \<Rightarrow> (pipeline_error + nat) \<times> pipeline" where
  "purge_expired_for_device cfg now d bucket p =
    (case fetch_pending_for_device d bucket (batch_size cfg) (pl_store p) of
       Inl e \<Rightarrow> (Inl (StoreFailure e), p)
     | Inr records \<Rightarrow> (case purge_loop cfg now d bucket records 0 p of (n, p') \<Rightarrow> (Inr n, p')))"

text \<open>One device of a recovery cycle; an exception leaves the cycle.\<close>

definition recover_device :: "pipeline_env \<Rightarrow> recovery_config \<Rightarrow> time_point \<Rightarrow> time_point \<Rightarrow> string
    \<Rightarrow> device_id \<Rightarrow> pipeline \<Rightarrow> (pipeline_error + nat) \<times> pipeline" where
  "recover_device env cfg now steady bucket d p =
    (case purge_expired_for_device cfg now d bucket p of
       (Inl e, p1) \<Rightarrow> (Inl e, p1)
     | (Inr _, p1) \<Rightarrow>
        (case sweep_retries_for_device env cfg now steady d bucket p1 of
           (Inl e, p2) \<Rightarrow> (Inl e, p2)
         | (Inr n1, p2) \<Rightarrow>
            (case recover_pending_for_device env cfg now steady d bucket p2 of
               (Inl e, p3) \<Rightarrow> (Inl e, p3)
             | (Inr n2, p3) \<Rightarrow> (Inr (n1 + n2), p3))))"

fun recover_devices :: "pipeline_env \<Rightarrow> recovery_config \<Rightarrow> time_point \<Rightarrow> time_point \<Rightarrow> string
    \<Rightarrow> device_id list \<Rightarrow> nat \<Rightarrow> pipeline \<Rightarrow> (pipeline_error + nat) \<times> pipeline" where
  "recover_devices env cfg now steady bucket [] n p = (Inr n, p)"
| "recover_devices env cfg now steady bucket (d # ds) n p =
    (case recover_device env cfg now steady bucket d p of
       (Inl e, p1) \<Rightarrow> (Inl e, p1)
     | (Inr k, p1) \<Rightarrow> recover_devices env cfg now steady bucket ds (n + k) p1)"

definition run_recovery_cycle :: "pipeline_env \<Rightarrow> recovery_config \<Rightarrow> time_point \<Rightarrow> time_point
    \<Rightarrow> device_id list \<Rightarrow> string \<Rightarrow> pipeline \<Rightarrow> (pipeline_error + nat) \<times> pipeline" where
  "run_recovery_cycle env cfg now steady candidate_devices delivery_bucket p =
    (if delivery_bucket \<noteq> [] then recover_devices env cfg now steady delivery_bucket candidate_devices 0 p
     else case from_time_point now of
         Inl e \<Rightarrow> (Inl (BucketFailure e), p)
       | Inr b \<Rightarrow> recover_devices env cfg now steady (bucket_value b) candidate_devices 0 p)"

section \<open>RealtimeDeliveryAccelerator\<close>

record accelerator_config =
  max_fast_track_batch :: nat
  accelerator_ttl :: duration

definition default_accelerator_config :: accelerator_config where
  "default_accelerator_config = \<lparr> max_fast_track_batch = 50, accelerator_ttl = 24 * 7 * 3600000 \<rparr>"

fun fast_track_loop :: "pipeline_env \<Rightarrow> accelerator_config \<Rightarrow> time_point \<Rightarrow> device_id \<Rightarrow> user_id \<Rightarrow> string
    \<Rightarrow> device_delivery_record list \<Rightarrow> nat \<Rightarrow> pipeline \<Rightarrow> (pipeline_error + nat) \<times> pipeline" where
  "fast_track_loop env cfg now d user bucket [] n p = (Inr n, p)"
| "fast_track_loop env cfg now d user bucket (r # rs) n p =
    (if rec_delivery_state r \<noteq> Queued \<and> rec_delivery_state r \<noteq> Delivering
     then fast_track_loop env cfg now d user bucket rs n p
     else if now - rec_accepted_at r > accelerator_ttl cfg
     then fast_track_loop env cfg now d user bucket rs n (expire_record d bucket r p)
     else case (if user \<noteq> [] then Inr user
                else resolve_user (rec_message_id r) (rec_device_id r) (pl_store p)) of
         Inl e \<Rightarrow> (Inl (StoreFailure e), p)
       | Inr u \<Rightarrow>
          (case schedule (scheduler_cfg env) now (task_of_record u now r) (pl_scheduler p) of
             (st, s') \<Rightarrow>
               let p1 = p\<lparr> pl_scheduler := s' \<rparr> in
               if st = Enqueued then fast_track_loop env cfg now d user bucket rs (n + 1) p1
               else (Inr n, p1)))"

definition on_device_connected :: "pipeline_env \<Rightarrow> accelerator_config \<Rightarrow> time_point \<Rightarrow> time_point
    \<Rightarrow> device_id \<Rightarrow> user_id \<Rightarrow> string \<Rightarrow> pipeline \<Rightarrow> (pipeline_error + nat) \<times> pipeline" where
  "on_device_connected env cfg now steady d user delivery_bucket p =
    (if \<not> is_online (capacity_cfg env) (channel_active env) steady d (pl_registry p) then (Inr 0, p)
     else case (if delivery_bucket = [] then map_sum id bucket_value (from_time_point now)
                else Inr delivery_bucket) of
         Inl e \<Rightarrow> (Inl (BucketFailure e), p)
       | Inr bucket \<Rightarrow>
          (case fetch_pending_for_device d bucket (max_fast_track_batch cfg) (pl_store p) of
             Inl e \<Rightarrow> (Inl (StoreFailure e), p)
           | Inr records \<Rightarrow> fast_track_loop env cfg now d user bucket records 0 p))"

section \<open>DeliveryService\<close>

record delivery_ack_command =
  ack_message_id :: message_id
  ack_recipient_device_id :: device_id
  ack_caller_user_id :: user_id
  ack_caller_device_id :: device_id
  ack_delivered_at :: time_point
  ack_conversation_id :: "conversation_id option"

record delivery_ack_response =
  resp_message_id :: message_id
  resp_state :: delivery_state
  resp_recorded_at :: time_point
  resp_is_idempotent_replay :: bool

text \<open>The conversation id of all zero bytes, which a default constructed id holds.\<close>

definition nil_id :: bytes where
  "nil_id = replicate 16 0"

definition ack_commit :: "string \<Rightarrow> time_point \<Rightarrow> delivery_ack_command \<Rightarrow> user_id \<Rightarrow> pipeline
    \<Rightarrow> (pipeline_error + delivery_ack_response) \<times> pipeline" where
  "ack_commit event_id at cmd owner p =
    (let p1 = p\<lparr> pl_store := record_delivery_ack (ack_message_id cmd) (ack_recipient_device_id cmd) at
                   (pl_store p) \<rparr>;
         conv0 = (case ack_conversation_id cmd of Some c \<Rightarrow> c | None \<Rightarrow> nil_id)
     in case from_time_point at of
          Inl e \<Rightarrow> (Inl (BucketFailure e), p1)
        | Inr b \<Rightarrow>
           (case fetch_pending_for_device (ack_recipient_device_id cmd) (bucket_value b) 100 (pl_store p1) of
              Inl e \<Rightarrow> (Inl (StoreFailure e), p1)
            | Inr records \<Rightarrow>
               (let hit = find (\<lambda>r. rec_message_id r = ack_message_id cmd) records;
                    p2 = (case hit of None \<Rightarrow> p1 | Some r \<Rightarrow>
                      p1\<lparr> pl_store := update_device_delivery_status (ack_recipient_device_id cmd)
                            (rec_delivery_bucket r) (rec_accepted_at r) (ack_message_id cmd) Delivered
                            (rec_attempt_count r) None (pl_store p1) \<rparr>);
                    conv = (case hit of None \<Rightarrow> conv0 | Some r \<Rightarrow>
                      if conv0 = nil_id then rec_conversation_id r else conv0);
                    ev = \<lparr> ev_event_id = event_id, ev_conversation_id = conv,
                      ev_event_type = MessageDelivered,
                      ev_payload = \<lparr> pay_message_id = message_id_to_string (ack_message_id cmd),
                        pay_recipient_device_id = ack_recipient_device_id cmd,
                        pay_recipient_user_id = owner, pay_delivered_at_unix_ms = at \<rparr>,
                      ev_created_at = at \<rparr>
                in (Inr \<lparr> resp_message_id = ack_message_id cmd, resp_state = Delivered,
                      resp_recorded_at = at, resp_is_idempotent_replay = False \<rparr>,
                    p2\<lparr> pl_outbox := pl_outbox p2 @ [ev] \<rparr>))))"

definition acknowledge_delivery :: "(device_id \<Rightarrow> bool) option \<Rightarrow> string \<Rightarrow> time_point
    \<Rightarrow> delivery_ack_command \<Rightarrow> pipeline
    \<Rightarrow> (pipeline_error + delivery_ack_response service_result) \<times> pipeline" where
  "acknowledge_delivery device_status_checker event_id now cmd p =
    (if ack_recipient_device_id cmd = [] then (Inr (Inl ERR_INVALID_TARGET_DEVICE), p)
     else
      let at = (if ack_delivered_at cmd > 0 then ack_delivered_at cmd else now) in
      case get_delivery_states_for_message (ack_message_id cmd) (pl_store p) of
        Inl e \<Rightarrow> (Inl (StoreFailure e), p)
      | Inr states \<Rightarrow>
         (case find (\<lambda>s. rds_recipient_device_id s = ack_recipient_device_id cmd) states of
            None \<Rightarrow> (Inr (Inl ERR_INVALID_TARGET_DEVICE), p)
          | Some target \<Rightarrow>
             if rds_recipient_user_id target \<noteq> ack_caller_user_id cmd
             then (Inr (Inl ERR_NOT_A_PARTICIPANT), p)
             else if ack_caller_device_id cmd \<noteq> [] \<and> ack_caller_device_id cmd \<noteq> ack_recipient_device_id cmd
             then (Inr (Inl ERR_INVALID_TARGET_DEVICE), p)
             else if (case device_status_checker of Some f \<Rightarrow> \<not> f (ack_recipient_device_id cmd) | None \<Rightarrow> False)
             then (Inr (Inl ERR_DEVICE_REVOKED), p)
             else if rds_delivery_state target = Delivered \<or> rds_delivery_state target = Read
             then (Inr (Inr \<lparr> resp_message_id = ack_message_id cmd,
                      resp_state = (if rds_delivery_state target = Read then Read else Delivered),
                      resp_recorded_at = (case rds_delivered_at target of Some t \<Rightarrow> t | None \<Rightarrow> at),
                      resp_is_idempotent_replay = True \<rparr>), p)
             else if rds_delivery_state target = Expired
             then (Inr (Inl ERR_MESSAGE_EXPIRED), p)
             else map_prod (map_sum id Inr) id
                    (ack_commit event_id at cmd (rds_recipient_user_id target) p)))"

section \<open>What the worker does with a task\<close>

text \<open>The result of the delivery attempt, where an absent or unhealthy channel
  counts as an offline recipient, and the delivery state it leads to.\<close>

definition attempt_result :: "pipeline_env \<Rightarrow> time_point \<Rightarrow> delivery_task \<Rightarrow> registry \<Rightarrow> delivery_attempt_result" where
  "attempt_result env steady t r =
    (case get_channel (capacity_cfg env) (channel_active env) steady (task_recipient_device_id t) r of
       None \<Rightarrow> RecipientOffline | Some ch \<Rightarrow> send_envelope env ch t)"

definition may_retry :: "pipeline_env \<Rightarrow> time_point \<Rightarrow> delivery_task \<Rightarrow> bool" where
  "may_retry env now t \<longleftrightarrow> task_attempt_count t + 1 < worker_max_retry_attempts env \<and>
     (case task_expires_at t of Some e \<Rightarrow> now < e | None \<Rightarrow> True)"

definition next_state :: "pipeline_env \<Rightarrow> time_point \<Rightarrow> delivery_task \<Rightarrow> delivery_attempt_result \<Rightarrow> delivery_state" where
  "next_state env now t res = (case res of Success \<Rightarrow> Delivered | RecipientOffline \<Rightarrow> Queued
     | TransientFailure \<Rightarrow> (if may_retry env now t then RetryWait else Expired) | TerminalFailure \<Rightarrow> Expired)"

definition retry_task :: "pipeline_env \<Rightarrow> time_point \<Rightarrow> delivery_task \<Rightarrow> delivery_task" where
  "retry_task env now t =
     t\<lparr> task_attempt_count := task_attempt_count t + 1,
        task_scheduled_at := now + next_delay env (task_attempt_count t + 1) \<rparr>"

definition task_key :: "message_bucket \<Rightarrow> delivery_task \<Rightarrow> pending_key" where
  "task_key b t = (task_recipient_device_id t, bucket_value b, task_accepted_at t, task_message_id t)"

lemma get_channel_active: "get_channel cfg act now d r = Some ch \<Longrightarrow> act ch"
  by (auto simp: get_channel_def split: option.splits if_splits)

lemma set_status_fields [simp]:
  "pl_scheduler (set_status t b st n nr p) = pl_scheduler p"
  "pl_registry (set_status t b st n nr p) = pl_registry p"
  "pl_outbox (set_status t b st n nr p) = pl_outbox p"
  "store_ok (pl_store p) \<Longrightarrow> store_ok (pl_store (set_status t b st n nr p))"
  by (simp_all add: set_status_def)

lemma pending_row_at_ack [simp]:
  "pending_row_at k (record_delivery_ack m d t s) = pending_row_at k s"
  by (simp add: pending_row_at_def record_delivery_ack_def)

lemma retry_decision:
  "delivery_is_retryable (worker_max_retry_attempts env) TransientFailure (task_attempt_count t + 1)
     (Some (case task_expires_at t of Some e \<Rightarrow> e | None \<Rightarrow> now + thirty_days_ms)) now = may_retry env now t"
  by (auto simp: delivery_is_retryable_def may_retry_def thirty_days_ms_def split: option.splits)

text \<open>The row of a task after a status write.\<close>

lemma row_after_status:
  assumes "store_ok (pl_store p)"
  shows "pending_row_at k (pl_store (set_status t (bucket_value b) st n nr p)) =
    (if k = task_key b t
     then Some \<lparr> row_key = (case pending_row_at k (pl_store p) of Some r \<Rightarrow> row_key r | None \<Rightarrow> k),
            row_columns = (case pending_row_at k (pl_store p) of Some r \<Rightarrow> row_columns r | None \<Rightarrow> None),
            row_state = st, row_attempt_count = n, row_next_retry_at = nr \<rparr>
     else pending_row_at k (pl_store p))"
  using assms by (auto simp: set_status_def pending_row_at_update task_key_def split: option.splits)

lemma task_key_retry [simp]:
  "task_key b (t\<lparr> task_attempt_count := n \<rparr>) = task_key b t"
  "task_key b (t\<lparr> task_scheduled_at := x \<rparr>) = task_key b t"
  by (simp_all add: task_key_def)

definition outcome_attempts :: "delivery_task \<Rightarrow> delivery_attempt_result \<Rightarrow> int" where
  "outcome_attempts t res = (if res = TransientFailure then task_attempt_count t + 1 else task_attempt_count t)"

definition outcome_retry_at :: "pipeline_env \<Rightarrow> time_point \<Rightarrow> delivery_task \<Rightarrow> delivery_attempt_result
    \<Rightarrow> time_point option" where
  "outcome_retry_at env now t res =
    (if res = TransientFailure \<and> may_retry env now t
     then Some (now + next_delay env (task_attempt_count t + 1)) else None)"

lemma dispatch_cases:
  assumes "from_time_point (task_accepted_at t) = Inr b"
    and res_def: "res = attempt_result env steady t (pl_registry p)"
  obtains p1 where "dispatch_task env eid now steady t p = (Inr True, p1)"
    "\<And>k. store_ok (pl_store p) \<Longrightarrow> pending_row_at k (pl_store p1) =
       pending_row_at k (pl_store (set_status t (bucket_value b) (next_state env now t res)
         (outcome_attempts t res) (outcome_retry_at env now t res) p))"
    "store_ok (pl_store p) \<Longrightarrow> store_ok (pl_store p1)"
    "pl_scheduler p1 = (if next_state env now t res = RetryWait
       then snd (schedule (scheduler_cfg env) now (retry_task env now t) (pl_scheduler p)) else pl_scheduler p)"
    "pl_outbox p1 = pl_outbox p @ (if res = Success then [delivered_event eid t now] else [])"
    "pl_registry p1 = pl_registry p"
proof -
  let ?p1 = "snd (dispatch_task env eid now steady t p)"
  note defs = dispatch_task_def attempt_result_def next_state_def outcome_attempts_def outcome_retry_at_def
    on_success_def on_transient_failure_def Let_def retry_decision retry_task_def
  have split: "(\<exists>ch. res = send_envelope env ch t \<and> channel_active env ch \<and>
        get_channel (capacity_cfg env) (channel_active env) steady (task_recipient_device_id t) (pl_registry p) = Some ch)
    \<or> (res = RecipientOffline \<and>
        get_channel (capacity_cfg env) (channel_active env) steady (task_recipient_device_id t) (pl_registry p) = None)"
    by (auto simp: res_def attempt_result_def split: option.splits dest: get_channel_active)
  have "dispatch_task env eid now steady t p = (Inr True, ?p1)"
    using split assms(1) by (auto simp: dispatch_task_def Let_def)
  moreover have "pending_row_at k (pl_store ?p1) =
       pending_row_at k (pl_store (set_status t (bucket_value b) (next_state env now t res)
         (outcome_attempts t res) (outcome_retry_at env now t res) p))" if "store_ok (pl_store p)" for k
    using split assms(1) that
    by (cases res) (auto simp: defs row_after_status split: option.splits)
  moreover have "store_ok (pl_store ?p1)" if "store_ok (pl_store p)"
    using split assms(1) that by (cases res) (auto simp: defs)
  moreover have "pl_scheduler ?p1 = (if next_state env now t res = RetryWait
       then snd (schedule (scheduler_cfg env) now (retry_task env now t) (pl_scheduler p)) else pl_scheduler p)"
    using split assms(1) by (cases res) (auto simp: defs)
  moreover have "pl_outbox ?p1 = pl_outbox p @ (if res = Success then [delivered_event eid t now] else [])"
    using split assms(1) by (cases res) (auto simp: defs)
  moreover have "pl_registry ?p1 = pl_registry p"
    using split assms(1) by (cases res) (auto simp: defs)
  ultimately show ?thesis by (rule that)
qed

lemma dequeue_task:
  assumes "dequeue cfg tmo s = Returned (r, s')" "scheduler_inv cfg s"
  shows "scheduler_inv cfg s'" "queued_tasks s = queued_tasks s' + (case r of Some t \<Rightarrow> {#t#} | None \<Rightarrow> {#})"
proof -
  have "dequeue_locked cfg s = (r, s') \<or> (r = None \<and> s' = s)"
    using assms(1) by (auto simp: dequeue_def Let_def split: if_splits)
  then show "scheduler_inv cfg s'" "queued_tasks s = queued_tasks s' + (case r of Some t \<Rightarrow> {#t#} | None \<Rightarrow> {#})"
    using assms(2) dequeue_inv dequeue_queued_tasks by (auto simp: scheduler_inv_def)
qed

section \<open>What recovery schedules\<close>

definition live_record :: "recovery_config \<Rightarrow> time_point \<Rightarrow> device_delivery_record \<Rightarrow> bool" where
  "live_record cfg now r \<longleftrightarrow> rec_delivery_state r \<in> {Queued, Delivering}
     \<and> now - rec_accepted_at r \<le> max_delivery_ttl cfg"

lemma pending_row_at_expire:
  assumes "store_ok (pl_store p)"
  shows "pending_row_at k (pl_store (expire_record d bucket r p)) =
    (if k = (d, bucket, rec_accepted_at r, rec_message_id r)
     then map_option (\<lambda>row. row\<lparr> row_state := Expired, row_attempt_count := rec_attempt_count r,
            row_next_retry_at := None \<rparr>)
          (Some (case pending_row_at k (pl_store p) of Some row \<Rightarrow> row
             | None \<Rightarrow> \<lparr> row_key = k, row_columns = None, row_state = Expired,
                 row_attempt_count = rec_attempt_count r, row_next_retry_at = None \<rparr>))
     else pending_row_at k (pl_store p))"
  using assms by (simp add: expire_record_def pending_row_at_update split: option.splits)

lemma expire_record_fields [simp]:
  "pl_scheduler (expire_record d bucket r p) = pl_scheduler p"
  "pl_outbox (expire_record d bucket r p) = pl_outbox p"
  "pl_registry (expire_record d bucket r p) = pl_registry p"
  "store_ok (pl_store p) \<Longrightarrow> store_ok (pl_store (expire_record d bucket r p))"
  by (simp_all add: expire_record_def)

text \<open>The tasks a recovery loop adds are made from live records, as many as it reports.\<close>

lemma recover_loop_scheduled:
  assumes "recover_loop env cfg now d bucket rs n p = (Inr m, p')"
    and "scheduler_inv (scheduler_cfg env) (pl_scheduler p)"
  shows "scheduler_inv (scheduler_cfg env) (pl_scheduler p') \<and>
    (\<exists>ts. queued_tasks (pl_scheduler p') = queued_tasks (pl_scheduler p) + mset ts \<and> m = n + length ts \<and>
      (\<forall>t\<in>set ts. \<exists>r\<in>set rs. \<exists>user. live_record cfg now r \<and> t = task_of_record user now r))"
  using assms
proof (induction rs arbitrary: n p)
  case (Cons r rs)
  consider (skip) "recover_loop env cfg now d bucket rs n p = (Inr m, p')"
    | (expire) "recover_loop env cfg now d bucket rs n (expire_record d bucket r p) = (Inr m, p')"
    | (sched) user st s' where "live_record cfg now r"
        "schedule (scheduler_cfg env) now (task_of_record user now r) (pl_scheduler p) = (st, s')"
        "if st = Enqueued then recover_loop env cfg now d bucket rs (n + 1) (p\<lparr> pl_scheduler := s' \<rparr>) = (Inr m, p')
         else n = m \<and> p' = p\<lparr> pl_scheduler := s' \<rparr>"
    using Cons.prems(1)
    by (auto simp: live_record_def Let_def split: if_splits sum.splits prod.splits)
  then show ?case
  proof cases
    case skip
    from Cons.IH [OF skip Cons.prems(2)] show ?thesis by fastforce
  next
    case expire
    from Cons.IH [OF expire] Cons.prems(2) show ?thesis by fastforce
  next
    case sched
    have inv: "scheduler_inv (scheduler_cfg env) s'" by (rule schedule_inv [OF sched(2) Cons.prems(2)])
    have q: "queued_tasks s' = queued_tasks (pl_scheduler p)
        + (if st = Enqueued then {#task_of_record user now r#} else {#})"
      using schedule_queued_tasks [OF sched(2)] Cons.prems(2) by (simp add: scheduler_inv_def)
    show ?thesis
    proof (cases "st = Enqueued")
      case False
      with sched inv q show ?thesis by (auto intro: exI [of _ "[]"])
    next
      case True
      with sched have "recover_loop env cfg now d bucket rs (n + 1) (p\<lparr> pl_scheduler := s' \<rparr>) = (Inr m, p')" by simp
      from Cons.IH [OF this] inv obtain ts where ts: "scheduler_inv (scheduler_cfg env) (pl_scheduler p')"
          "queued_tasks (pl_scheduler p') = queued_tasks s' + mset ts" "m = n + 1 + length ts"
          "\<forall>t\<in>set ts. \<exists>r\<in>set rs. \<exists>user. live_record cfg now r \<and> t = task_of_record user now r"
        by auto
      with True q sched(1) show ?thesis
        by (intro conjI exI [of _ "task_of_record user now r # ts"]) auto
    qed
  qed
qed auto

text \<open>The rows a recovery loop changes are those of records past their time to live.\<close>

lemma recover_loop_rows:
  assumes "recover_loop env cfg now d bucket rs n p = (res, p')" "store_ok (pl_store p)"
  shows "store_ok (pl_store p') \<and> message_states (pl_store p') = message_states (pl_store p) \<and>
    (pending_row_at k (pl_store p') = pending_row_at k (pl_store p) \<or>
      (\<exists>r\<in>set rs. \<exists>row. k = (d, bucket, rec_accepted_at r, rec_message_id r) \<and>
        now - rec_accepted_at r > max_delivery_ttl cfg \<and>
        pending_row_at k (pl_store p') = Some row \<and> row_state row = Expired))"
  using assms
proof (induction rs arbitrary: n p)
  case (Cons r rs)
  consider (skip) "recover_loop env cfg now d bucket rs n p = (res, p')"
    | (expire) "recover_loop env cfg now d bucket rs n (expire_record d bucket r p) = (res, p')"
        "now - rec_accepted_at r > max_delivery_ttl cfg"
    | (sched) s' where "recover_loop env cfg now d bucket rs (n + 1) (p\<lparr> pl_scheduler := s' \<rparr>) = (res, p')"
    | (stop) "pl_store p' = pl_store p"
    using Cons.prems(1)
    by (auto simp: Let_def split: if_splits sum.splits prod.splits)
  then show ?case
  proof cases
    case skip
    from Cons.IH [OF skip Cons.prems(2)] show ?thesis by fastforce
  next
    case expire
    have "message_states (pl_store (expire_record d bucket r p)) = message_states (pl_store p)"
      by (simp add: expire_record_def update_device_delivery_status_def)
    with Cons.IH [OF expire(1)] Cons.prems(2) expire(2) pending_row_at_expire [OF Cons.prems(2), of k d bucket r]
    show ?thesis by (auto split: if_splits)
  next
    case sched
    from Cons.IH [OF sched] Cons.prems(2) show ?thesis by fastforce
  qed (use Cons.prems in simp)
qed auto

section \<open>Acknowledgements\<close>

lemma sort_key_map_same_key:
  assumes "\<And>x. k (f x) = k x"
  shows "sort_key k (map f xs) = map f (sort_key k xs)"
proof -
  have "insort_key k (f x) (map f ys) = map f (insort_key k x ys)" for x ys
    by (induction ys) (simp_all add: assms)
  then show ?thesis by (induction xs) simp_all
qed

lemma decode_all_map:
  assumes "\<And>x. g (f x) = map_sum id h (g x)"
  shows "decode_all g (map f xs) = map_sum id (map h) (decode_all g xs)"
  by (induction xs) (auto simp: assms split: sum.splits)

lemma decode_all_find:
  assumes "decode_all row_to_recipient_state rows = Inr sts"
    and "find (\<lambda>s. rds_recipient_device_id s = d) sts = Some st"
  shows "\<exists>row\<in>set rows. snd (rr_key row) = d \<and> row_to_recipient_state row = Inr st"
  using assms
  by (induction rows arbitrary: sts)
    (auto simp: row_to_recipient_state_def split: sum.splits option.splits if_splits)

lemma find_map_keep:
  assumes "\<And>x. P (f x) = P x"
  shows "find P (map f xs) = map_option f (find P xs)"
  by (induction xs) (simp_all add: assms)

definition mark_delivered :: "device_id \<Rightarrow> time_point \<Rightarrow> recipient_delivery_state \<Rightarrow> recipient_delivery_state" where
  "mark_delivered d at s = (if rds_recipient_device_id s = d
     then s\<lparr> rds_delivery_state := Delivered, rds_delivered_at := Some at \<rparr> else s)"

lemma row_of_target:
  assumes "get_delivery_states_for_message m s = Inr sts" "store_ok s"
    and "find (\<lambda>x. rds_recipient_device_id x = d) sts = Some st"
  obtains row where "state_row_at (m, d) s = Some row" "rr_user_id row = Some (rds_recipient_user_id st)"
    "rr_state row = rds_delivery_state st" "rr_delivered_at row = rds_delivered_at st"
    "(m, d) \<in> rr_key ` set (message_states s)"
proof -
  obtain row where row: "row \<in> set (message_rows m s)" "snd (rr_key row) = d" "row_to_recipient_state row = Inr st"
    using assms decode_all_find unfolding get_delivery_states_for_message_def by metis
  then have mem: "row \<in> set (message_states s)" "rr_key row = (m, d)" by (auto simp: message_rows_def prod_eq_iff)
  then have "filter (\<lambda>r. rr_key r = (m, d)) (message_states s) = [row]"
    using assms(2) filter_key_distinct [of rr_key "message_states s" row] by (auto simp: store_ok_def)
  with row mem show ?thesis
    by (intro that [of row])
      (force simp: state_row_at_def row_to_recipient_state_def split: option.splits)+
qed

lemma states_after_ack:
  assumes "get_delivery_states_for_message m s = Inr sts" "(m, d) \<in> rr_key ` set (message_states s)"
  shows "get_delivery_states_for_message m (record_delivery_ack m d at s) = Inr (map (mark_delivered d at) sts)"
proof -
  define upd where "upd = (\<lambda>r :: recipient_row. if rr_key r = (m, d) then r\<lparr> rr_state := Delivered, rr_delivered_at := Some at \<rparr> else r)"
  define upd' where "upd' = (\<lambda>r :: recipient_row. if snd (rr_key r) = d then r\<lparr> rr_state := Delivered, rr_delivered_at := Some at \<rparr> else r)"
  let ?on = "filter (\<lambda>r :: recipient_row. fst (rr_key r) = m)"
  have "?on (map upd xs) = map upd' (?on xs)" for xs
    by (induction xs) (auto simp: upd_def upd'_def)
  moreover have "message_states (record_delivery_ack m d at s) = map upd (message_states s)"
    using assms(2) by (auto simp: record_delivery_ack_def upsert_def upd_def)
  ultimately have "message_rows m (record_delivery_ack m d at s) = map upd' (message_rows m s)"
    by (simp add: message_rows_def sort_key_map_same_key upd'_def)
  moreover have "row_to_recipient_state (upd' r) = map_sum id (mark_delivered d at) (row_to_recipient_state r)" for r
    by (auto simp: row_to_recipient_state_def upd'_def mark_delivered_def split: option.splits)
  ultimately show ?thesis
    using assms(1) by (simp add: get_delivery_states_for_message_def decode_all_map)
qed

lemma message_states_update_status [simp]:
  "message_states (update_device_delivery_status d b a m st n nr s) = message_states s"
  by (simp add: update_device_delivery_status_def)

text \<open>A committed acknowledgement: who asked, and what the tables hold before and after.\<close>

lemma ack_commit_cases:
  assumes "ack_commit eid at cmd owner p = (Inr resp, p')" "store_ok (pl_store p)"
  shows "resp = \<lparr> resp_message_id = ack_message_id cmd, resp_state = Delivered, resp_recorded_at = at,
      resp_is_idempotent_replay = False \<rparr>"
    "message_states (pl_store p') = message_states
       (record_delivery_ack (ack_message_id cmd) (ack_recipient_device_id cmd) at (pl_store p))"
    "store_ok (pl_store p')" "pl_scheduler p' = pl_scheduler p"
    "\<exists>ev. pl_outbox p' = pl_outbox p @ [ev] \<and> ev_event_type ev = MessageDelivered"
    "\<exists>b. from_time_point at = Inr b"
  using assms
  by (auto simp: ack_commit_def Let_def split: sum.splits option.splits)

lemma get_states_cong:
  "message_states s = message_states s' \<Longrightarrow> get_delivery_states_for_message m s = get_delivery_states_for_message m s'"
  by (simp add: get_delivery_states_for_message_def message_rows_def)

lemma ack_committed:
  assumes "acknowledge_delivery chk eid now cmd p = (Inr (Inr resp), p')" "\<not> resp_is_idempotent_replay resp"
  obtains sts target at where "get_delivery_states_for_message (ack_message_id cmd) (pl_store p) = Inr sts"
    "find (\<lambda>s. rds_recipient_device_id s = ack_recipient_device_id cmd) sts = Some target"
    "at = (if ack_delivered_at cmd > 0 then ack_delivered_at cmd else now)"
    "ack_recipient_device_id cmd \<noteq> []" "rds_recipient_user_id target = ack_caller_user_id cmd"
    "ack_caller_device_id cmd = [] \<or> ack_caller_device_id cmd = ack_recipient_device_id cmd"
    "case chk of Some f \<Rightarrow> f (ack_recipient_device_id cmd) | None \<Rightarrow> True"
    "rds_delivery_state target \<notin> {Delivered, Read, Expired}"
    "ack_commit eid at cmd (rds_recipient_user_id target) p = (Inr resp, p')"
proof -
  let ?at = "if ack_delivered_at cmd > 0 then ack_delivered_at cmd else now"
  obtain sts target where ok: "get_delivery_states_for_message (ack_message_id cmd) (pl_store p) = Inr sts"
      "find (\<lambda>s. rds_recipient_device_id s = ack_recipient_device_id cmd) sts = Some target"
      "ack_recipient_device_id cmd \<noteq> []"
    using assms by (fastforce simp: acknowledge_delivery_def Let_def split: if_splits sum.splits option.splits)
  moreover have "rds_recipient_user_id target = ack_caller_user_id cmd"
      "ack_caller_device_id cmd = [] \<or> ack_caller_device_id cmd = ack_recipient_device_id cmd"
      "case chk of Some f \<Rightarrow> f (ack_recipient_device_id cmd) | None \<Rightarrow> True"
      "rds_delivery_state target \<notin> {Delivered, Read, Expired}"
      "map_prod (map_sum id Inr) id (ack_commit eid ?at cmd (rds_recipient_user_id target) p)
         = (Inr (Inr resp :: delivery_ack_response service_result), p')"
    using assms ok unfolding acknowledge_delivery_def Let_def
    by (auto split: if_splits option.splits)
  moreover from this(5) have "ack_commit eid ?at cmd (rds_recipient_user_id target) p = (Inr resp, p')"
    by (cases "ack_commit eid ?at cmd (rds_recipient_user_id target) p"; cases "fst (ack_commit eid ?at cmd (rds_recipient_user_id target) p)") auto
  ultimately show ?thesis by (intro that) auto
qed

lemma decode_all_set:
  "decode_all f xs = Inr ys \<Longrightarrow> y \<in> set ys \<Longrightarrow> \<exists>x\<in>set xs. f x = Inr y"
  by (induction xs arbitrary: ys) (auto split: sum.splits)

lemma fetched_in_bucket:
  assumes "fetch_pending_for_device d bucket n s = Inr rs" "r \<in> set rs"
  shows "rec_delivery_bucket r = bucket"
proof -
  obtain row where "row \<in> set (pending_deliveries s)" "fst (snd (row_key row)) = bucket"
      "row_to_delivery_record row = Inr r"
    using decode_all_set [OF assms(1) [unfolded fetch_pending_for_device_def] assms(2)]
    by (auto dest!: in_set_takeD)
  then show ?thesis by (auto simp: row_to_delivery_record_def split: option.splits prod.splits)
qed

section \<open>Properties\<close>


definition sample_env :: "delivery_attempt_result \<Rightarrow> pipeline_env" where
  "sample_env res = \<lparr> scheduler_cfg = small_config, capacity_cfg = small_capacity, channel_active = (\<lambda>_. True),
     send_envelope = (\<lambda>_ _. res), next_delay = (\<lambda>n. 1000 * n), worker_max_retry_attempts = 5 \<rparr>"

definition sample_pipeline :: "delivery_store \<Rightarrow> pipeline" where
  "sample_pipeline s = \<lparr> pl_scheduler = new_scheduler, pl_registry = registry_after [chan ''d'' ''u''],
     pl_store = s, pl_outbox = [] \<rparr>"

definition one_task :: pipeline where
  "one_task = (sample_pipeline empty_store)
     \<lparr> pl_scheduler := snd (schedule small_config 0 (sample_task 1 ''d'' Normal) new_scheduler) \<rparr>"

lemma one_task_scheduler: "scheduler_inv small_config (pl_scheduler one_task)"
  by (simp add: one_task_def schedule_inv [OF prod.collapse [symmetric] new_scheduler_inv])

lemma one_task_eval:
  "dequeue small_config 10 (pl_scheduler one_task) = Returned (Some (sample_task 1 ''d'' Normal), new_scheduler)"
  "pl_store one_task = empty_store" "pl_registry one_task = registry_after [chan ''d'' ''u'']"
  by (simp_all add: one_task_def sample_pipeline_def scheduler_eval dequeue_def dequeue_locked_def
      dequeue_ring.simps opt_list_def)

lemma epoch_bucket: "from_time_point 0 = Inr \<lparr> bucket_value = bucket_string 1970 1, bucket_year = 1970, bucket_month = 1 \<rparr>"
  by code_simp

lemma sample_channel:
  "get_channel small_capacity (\<lambda>_. True) 0 ''d'' (registry_after [chan ''d'' ''u'']) = Some (chan ''d'' ''u'')"
  by code_simp

lemma sample_attempt:
  "attempt_result (sample_env res) 0 (sample_task n ''d'' pr) (registry_after [chan ''d'' ''u'']) = res"
  "scheduler_cfg (sample_env res) = small_config" "may_retry (sample_env res) 0 (sample_task n ''d'' pr)"
  "next_delay (sample_env res) k = 1000 * k"
  by (simp_all add: attempt_result_def may_retry_def sample_env_def sample_task_def sample_channel)

lemma sample_task_fields:
  "task_accepted_at (sample_task n d pr) = 0" "task_attempt_count (sample_task n d pr) = 0"
  "task_message_id (sample_task n d pr) = n # replicate 15 1" "task_recipient_device_id (sample_task n d pr) = d"
  by (simp_all add: sample_task_def)

lemmas worker_facts = one_task_scheduler one_task_eval sample_attempt sample_task_fields epoch_bucket


text \<open>C20: the backoff is not enforced.  A task that failed transiently while it was
  alone in the scheduler is handed to the next worker that asks, at once, although
  its own \<open>scheduled_at\<close> and the row's \<open>next_retry_at\<close> lie in the future.\<close>

theorem backoff_not_enforced:
  assumes "store_ok (pl_store p)" "scheduler_inv (scheduler_cfg env) (pl_scheduler p)"
    and "dequeue (scheduler_cfg env) tmo (pl_scheduler p) = Returned (Some t, s1)" "queued_tasks s1 = {#}"
    and "from_time_point (task_accepted_at t) = Inr b"
    and "attempt_result env steady t (pl_registry p) = TransientFailure" "may_retry env now t"
    and "fst (schedule (scheduler_cfg env) now (retry_task env now t) s1) = Enqueued"
  shows "\<exists>p' t' s'. process_single_task env eid now steady tmo p = Returned (Inr True, p') \<and>
    dequeue (scheduler_cfg env) tmo' (pl_scheduler p') = Returned (Some t', s') \<and>
    task_scheduled_at t' = now + next_delay env (task_attempt_count t + 1) \<and>
    task_message_id t' = task_message_id t"
proof -
  let ?t = "retry_task env now t"
  obtain s2 where sch: "schedule (scheduler_cfg env) now ?t s1 = (Enqueued, s2)"
    using assms(8) by (cases "schedule (scheduler_cfg env) now ?t s1") auto
  have s1: "scheduler_inv (scheduler_cfg env) s1" by (rule dequeue_task [OF assms(3,2)])
  have s2: "scheduler_inv (scheduler_cfg env) s2" "queued_tasks s2 = {#?t#}"
    using schedule_inv [OF sch s1] schedule_queued_tasks [OF sch] s1 assms(4) by (simp_all add: scheduler_inv_def)
  obtain p' where p': "process_single_task env eid now steady tmo p = Returned (Inr True, p')" "pl_scheduler p' = s2"
    by (rule dispatch_cases [OF assms(5) refl, where env = env and steady = steady and now = now
          and eid = eid and p = "p\<lparr> pl_scheduler := s1 \<rparr>"])
      (use assms(3,6,7) sch in \<open>simp add: process_single_task_def next_state_def\<close>)
  obtain r s3 where deq: "dequeue_locked (scheduler_cfg env) s2 = (r, s3)" by fastforce
  have "r = Some ?t"
    using dequeue_none_iff [OF deq] dequeue_queued_tasks [OF deq] s2
    by (cases r) (auto simp: scheduler_inv_def)
  moreover have "total_tasks_count s2 > 0"
    using s2 size_queued_tasks [of s2] by (auto simp: scheduler_inv_def counts_ok_def)
  ultimately have "dequeue (scheduler_cfg env) tmo' s2 = Returned (Some ?t, s3)"
    using deq by (simp add: dequeue_def Let_def)
  with p' show ?thesis by (auto simp: retry_task_def)
qed

theorem backoff_not_enforced_witness:
  "\<exists>p' t' s'. process_single_task (sample_env TransientFailure) ''e'' 0 0 10 one_task = Returned (Inr True, p') \<and>
    dequeue small_config 0 (pl_scheduler p') = Returned (Some t', s') \<and> task_scheduled_at t' = 1000"
proof -
  let ?t = "sample_task 1 ''d'' Normal" and ?env = "sample_env TransientFailure"
  let ?b = "\<lparr> bucket_value = bucket_string 1970 1, bucket_year = 1970, bucket_month = 1 \<rparr>"
  have empty: "queued_tasks new_scheduler = {#}" by (simp add: queued_tasks_def new_scheduler_def)
  have enq: "fst (schedule small_config 0 (retry_task ?env 0 ?t) new_scheduler) = Enqueued"
    by (simp add: scheduler_eval retry_task_def opt_list_def)
  obtain p' t' s' where "process_single_task ?env ''e'' 0 0 10 one_task = Returned (Inr True, p')"
      "dequeue small_config 0 (pl_scheduler p') = Returned (Some t', s')"
      "task_scheduled_at t' = 0 + next_delay ?env (task_attempt_count ?t + 1)"
    using backoff_not_enforced [of one_task ?env 10 ?t new_scheduler ?b 0 0 "''e''" 0] empty enq
    by (auto simp only: worker_facts empty_store_ok)
  then show ?thesis by (simp add: sample_attempt sample_task_fields)
qed

text \<open>C21: recovery is sound.  The tasks it puts back into the scheduler are exactly as
  many as it reports, each is made from a fetched record that is \<open>QUEUED\<close> or
  \<open>DELIVERING\<close> and within its time to live, the per-message states stay as they
  are, and a pending row changes only to \<open>EXPIRED\<close>, and only past its time to live.\<close>

theorem recovery_sound:
  assumes "recover_pending_for_device env cfg now steady d bucket p = (Inr n, p')"
    and "store_ok (pl_store p)" "scheduler_inv (scheduler_cfg env) (pl_scheduler p)"
    and "fetch_pending_for_device d bucket (batch_size cfg) (pl_store p) = Inr records"
  shows "\<exists>ts. queued_tasks (pl_scheduler p') = queued_tasks (pl_scheduler p) + mset ts \<and> n = length ts \<and>
      (\<forall>t\<in>set ts. \<exists>r\<in>set records. \<exists>user. live_record cfg now r \<and> t = task_of_record user now r) \<and>
      message_states (pl_store p') = message_states (pl_store p) \<and>
      (\<forall>k. pending_row_at k (pl_store p') = pending_row_at k (pl_store p) \<or>
        (\<exists>r\<in>set records. \<exists>row. k = (d, bucket, rec_accepted_at r, rec_message_id r) \<and>
          now - rec_accepted_at r > max_delivery_ttl cfg \<and>
          pending_row_at k (pl_store p') = Some row \<and> row_state row = Expired))"
proof (cases "is_online (capacity_cfg env) (channel_active env) steady d (pl_registry p)")
  case True
  with assms(1,4) have loop: "recover_loop env cfg now d bucket records 0 p = (Inr n, p')"
    by (simp add: recover_pending_for_device_def)
  show ?thesis
    using recover_loop_scheduled [OF loop assms(3)] recover_loop_rows [OF loop assms(2)] by auto
next
  case False
  with assms(1) show ?thesis by (auto simp: recover_pending_for_device_def)
qed

definition recovery_store :: "delivery_state \<Rightarrow> delivery_store" where
  "recovery_store st = save_pending_deliveries [sample_record ''d'' 1 st] empty_store"

lemma recovery_store_eval:
  "store_ok (recovery_store st)"
  "fetch_pending_for_device ''d'' ''202611'' 100 (recovery_store st) = Inr [sample_record ''d'' 1 st]"
  "get_delivery_states_for_message m (recovery_store st) = Inr []"
  "update_device_delivery_status ''d'' ''202611'' 5 (1 # replicate 15 1) st' 1 None (recovery_store st)
     = recovery_store st'"
proof -
  have key: "row_key (record_to_row r) =
      (rec_device_id r, rec_delivery_bucket r, rec_accepted_at r, rec_message_id r)" for r
    by (simp add: record_to_row_def)
  note ev = recovery_store_def save_pending_deliveries_def empty_store_def upsert_def key sample_record_def
  show "store_ok (recovery_store st)" by (simp add: recovery_store_def)
  show "fetch_pending_for_device ''d'' ''202611'' 100 (recovery_store st) = Inr [sample_record ''d'' 1 st]"
    by (simp add: ev fetch_pending_for_device_def decode_encode_record)
  show "get_delivery_states_for_message m (recovery_store st) = Inr []"
    by (simp add: ev get_delivery_states_for_message_def message_rows_def)
  show "update_device_delivery_status ''d'' ''202611'' 5 (1 # replicate 15 1) st' 1 None (recovery_store st)
     = recovery_store st'"
    by (simp add: ev update_device_delivery_status_def record_to_row_def)
qed

lemma sample_record_fields:
  "rec_delivery_state (sample_record d n st) = st" "rec_accepted_at (sample_record d n st) = 5"
  "rec_message_id (sample_record d n st) = n # replicate 15 1" "rec_attempt_count (sample_record d n st) = 1"
  "rec_next_retry_at (sample_record d n st) = None"
  by (simp_all add: sample_record_def)

lemmas recovery_eval = recovery_store_eval sample_record_fields resolve_user_def sample_pipeline_def default_recovery_config_def
  sample_env_def is_online_def sample_channel Let_def

definition recovered_task :: delivery_task where
  "recovered_task = task_of_record [] 10 (sample_record ''d'' 1 Queued)"

lemma recovered_task_any_state: "task_of_record [] 10 (sample_record ''d'' 1 st) = recovered_task"
  by (simp add: recovered_task_def task_of_record_def envelope_of_record_def sample_record_def)

lemma schedule_recovered:
  assumes "schedule small_config 10 recovered_task new_scheduler = (st, s)"
  shows "st = Enqueued \<and> fst (schedule small_config 10 recovered_task s) = Enqueued"
  using assms
  by (auto simp: scheduler_eval recovered_task_def task_of_record_def sample_record_def opt_list_def Let_def)

theorem recovery_sound_witness:
  "\<exists>n p' ts. recover_pending_for_device (sample_env Success) default_recovery_config 10 0 ''d'' ''202611''
      (sample_pipeline (recovery_store Queued)) = (Inr n, p') \<and>
    queued_tasks (pl_scheduler p') = mset ts \<and> n = length ts \<and> n = 1"
proof -
  let ?p = "sample_pipeline (recovery_store Queued)" and ?env = "sample_env Success"
  let ?r = "recover_pending_for_device ?env default_recovery_config 10 0 ''d'' ''202611'' ?p"
  obtain st s where sch: "schedule small_config 10 recovered_task new_scheduler = (st, s)" by fastforce
  have run: "?r = (Inr 1, ?p\<lparr> pl_scheduler := s \<rparr>)"
    using sch schedule_recovered [OF sch]
    by (simp add: recover_pending_for_device_def recovery_eval recovered_task_any_state)
  have "queued_tasks new_scheduler = {#}" by (simp add: queued_tasks_def new_scheduler_def)
  then show ?thesis
    using recovery_sound [OF run] recovery_store_eval new_scheduler_inv run
    by (fastforce simp: sample_pipeline_def default_recovery_config_def)
qed



definition ack_pipeline :: pipeline where
  "ack_pipeline = sample_pipeline (save_recipient_delivery_states
     [\<lparr> rds_message_id = replicate 16 1, rds_recipient_device_id = ''d'', rds_recipient_user_id = ''u'',
        rds_delivery_state = Delivering, rds_delivered_at = None, rds_read_at = None \<rparr>] (recovery_store Queued))"

definition ack_cmd :: delivery_ack_command where
  "ack_cmd = \<lparr> ack_message_id = replicate 16 1, ack_recipient_device_id = ''d'', ack_caller_user_id = ''u'',
     ack_caller_device_id = ''d'', ack_delivered_at = 7, ack_conversation_id = None \<rparr>"

lemma ack_bucket: "from_time_point 7 = Inr \<lparr> bucket_value = ''197001'', bucket_year = 1970, bucket_month = 1 \<rparr>"
  by code_simp

lemma ack_pipeline_run:
  "\<exists>resp p'. acknowledge_delivery None ''e'' 9 ack_cmd ack_pipeline = (Inr (Inr resp), p') \<and>
     \<not> resp_is_idempotent_replay resp \<and> resp_recorded_at resp = 7"
  "store_ok (pl_store ack_pipeline)"
proof -
  show "store_ok (pl_store ack_pipeline)"
    by (simp add: ack_pipeline_def sample_pipeline_def recovery_store_eval)
  show "\<exists>resp p'. acknowledge_delivery None ''e'' 9 ack_cmd ack_pipeline = (Inr (Inr resp), p') \<and>
     \<not> resp_is_idempotent_replay resp \<and> resp_recorded_at resp = 7"
    by (simp add: acknowledge_delivery_def ack_cmd_def ack_pipeline_def sample_pipeline_def Let_def
        save_recipient_delivery_states_def get_delivery_states_for_message_def message_rows_def
        recovery_store_def save_pending_deliveries_def empty_store_def upsert_def state_to_row_def
        row_to_recipient_state_def ack_commit_def ack_bucket fetch_pending_for_device_def
        record_delivery_ack_def record_to_row_def sample_record_def)
qed


text \<open>C24: an acknowledgement looks for the pending row in the bucket of the time of
  delivery, while the row is stored in the bucket of the time of acceptance.  When
  the two differ, the message is recorded as delivered and its pending row stays as
  it was, to be found by the next recovery.\<close>

theorem late_ack_leaves_row_pending:
  assumes "acknowledge_delivery chk eid now cmd p = (Inr (Inr resp), p')"
    and "\<not> resp_is_idempotent_replay resp" "store_ok (pl_store p)"
    and "from_time_point (resp_recorded_at resp) = Inr b" "bucket \<noteq> bucket_value b"
  shows "pending_row_at (d, bucket, acc, m) (pl_store p') = pending_row_at (d, bucket, acc, m) (pl_store p)"
  using assms(1,2)
proof (cases rule: ack_committed)
  case (1 sts target at)
  let ?s = "record_delivery_ack (ack_message_id cmd) (ack_recipient_device_id cmd) at (pl_store p)"
  have at: "from_time_point at = Inr b" using ack_commit_cases(1) [OF 1(9) assms(3)] assms(4) by simp
  obtain rs where rs: "fetch_pending_for_device (ack_recipient_device_id cmd) (bucket_value b) 100 ?s = Inr rs"
    using 1(9) at by (auto simp: ack_commit_def Let_def split: sum.splits)
  show ?thesis
  proof (cases "find (\<lambda>r. rec_message_id r = ack_message_id cmd) rs")
    case None
    then have "pl_store p' = ?s" using 1(9) at rs by (auto simp: ack_commit_def Let_def)
    then show ?thesis by simp
  next
    case (Some r)
    then have "r \<in> set rs" by (auto simp: find_Some_iff)
    from fetched_in_bucket [OF rs this] have "rec_delivery_bucket r = bucket_value b" .
    moreover have "pl_store p' = update_device_delivery_status (ack_recipient_device_id cmd) (rec_delivery_bucket r)
        (rec_accepted_at r) (ack_message_id cmd) Delivered (rec_attempt_count r) None ?s"
      using 1(9) at rs Some by (auto simp: ack_commit_def Let_def)
    ultimately show ?thesis using assms(3,5) by (simp add: pending_row_at_update)
  qed
qed

theorem late_ack_leaves_row_pending_witness:
  "\<exists>resp p'. acknowledge_delivery None ''e'' 9 ack_cmd ack_pipeline = (Inr (Inr resp), p') \<and>
     pending_row_at (''d'', ''202611'', 5, 1 # replicate 15 1) (pl_store p') =
       pending_row_at (''d'', ''202611'', 5, 1 # replicate 15 1) (pl_store ack_pipeline)"
proof -
  obtain resp p' where run: "acknowledge_delivery None ''e'' 9 ack_cmd ack_pipeline = (Inr (Inr resp), p')"
      "\<not> resp_is_idempotent_replay resp" "resp_recorded_at resp = 7"
    using ack_pipeline_run(1) by blast
  then show ?thesis
    using late_ack_leaves_row_pending [OF run(1,2) ack_pipeline_run(2)] ack_bucket by fastforce
qed

end
