(* ===== verification/Conversation_Repository.thy ===== *)
theory Conversation_Repository
  imports Delivery_State Identifiers "HOL-Library.AList"
    "HOL-Library.Char_ord" "HOL-Library.List_Lexorder" "HOL-Library.Product_Lexorder"
begin

text \<open>
  Conversations and their members (\<open>src/src/messaging\<close>): the entities of
  \<open>domain\<close>, \<open>ConversationLifecycleManager\<close>, and the in-memory implementations of
  \<open>IConversationRepository\<close> and \<open>IMembershipRepository\<close>.  The hash map of
  participants is an association list whose order is the iteration order; the
  other maps are only looked up.  The contract of \<open>IMembershipRepository\<close> that its
  clients rely on is the locale \<open>membership_contract\<close>.
\<close>

section \<open>Entities\<close>

datatype conversation_type = Direct | Group
datatype group_status = GS_Active | GS_Closed
datatype membership_status = MS_Active | MS_Left | MS_Removed
datatype participant_role = Member | Admin

record conversation_entity =
  cv_conversation_id :: conversation_id
  cv_type :: conversation_type
  cv_created_by_user_id :: user_id
  cv_created_at :: time_point
  cv_metadata_version :: u64

record participant_entity =
  pt_conversation_id :: conversation_id
  pt_user_id :: user_id
  pt_role :: participant_role
  pt_status :: membership_status
  pt_joined_at :: time_point
  pt_left_at :: "time_point option"
  pt_membership_version :: u64

record group_metadata_entity =
  gm_conversation_id :: conversation_id
  gm_title :: string
  gm_status :: group_status
  gm_created_at :: time_point
  gm_updated_at :: time_point
  gm_metadata_version :: u64

text \<open>The canonical pair of a direct conversation; the constructor throws on equal users.\<close>

record direct_pair =
  dp_user_a :: user_id
  dp_user_b :: user_id

definition make_direct_pair :: "user_id \<Rightarrow> user_id \<Rightarrow> direct_pair option" where
  "make_direct_pair first second =
    (if first = second then None
     else if first < second then Some \<lparr> dp_user_a = first, dp_user_b = second \<rparr>
     else Some \<lparr> dp_user_a = second, dp_user_b = first \<rparr>)"

section \<open>ConversationLifecycleManager (domain rules)\<close>

definition is_valid_group_transition :: "group_status \<Rightarrow> group_status \<Rightarrow> bool" where
  "is_valid_group_transition current_status new_status =
    (if current_status = new_status then True
     else case current_status of GS_Active \<Rightarrow> new_status = GS_Closed | GS_Closed \<Rightarrow> False)"

definition is_valid_membership_transition :: "membership_status \<Rightarrow> membership_status \<Rightarrow> bool" where
  "is_valid_membership_transition current_status new_status =
    (if current_status = new_status then True
     else case current_status of
         MS_Active \<Rightarrow> new_status = MS_Left \<or> new_status = MS_Removed
       | MS_Left \<Rightarrow> new_status = MS_Active
       | MS_Removed \<Rightarrow> new_status = MS_Active)"

definition is_valid_direct_participant_count :: "nat \<Rightarrow> bool" where
  "is_valid_direct_participant_count n = (n = 2)"

definition is_valid_group_initial_participant_count :: "nat \<Rightarrow> bool" where
  "is_valid_group_initial_participant_count n = (n \<ge> 1 \<and> n \<le> 500)"

definition is_valid_group_title :: "string \<Rightarrow> bool" where
  "is_valid_group_title title =
    (if title = [] \<or> length title > 255 then False
     else list_ex (\<lambda>c. c \<noteq> CHR '' '' \<and> c \<noteq> CHR 0x09 \<and> c \<noteq> CHR 0x0D \<and> c \<noteq> CHR 0x0A) title)"

section \<open>InMemoryConversationRepository\<close>

record conversation_repo =
  conversations :: "conversation_id \<rightharpoonup> conversation_entity"
  direct_pairs :: "direct_pair \<rightharpoonup> conversation_id"
  group_metadata :: "conversation_id \<rightharpoonup> group_metadata_entity"

definition clear_conversation_repo :: conversation_repo where
  "clear_conversation_repo =
     \<lparr> conversations = (\<lambda>_. None), direct_pairs = (\<lambda>_. None), group_metadata = (\<lambda>_. None) \<rparr>"

definition save_conversation :: "conversation_entity \<Rightarrow> conversation_repo \<Rightarrow> conversation_repo" where
  "save_conversation conv r = r\<lparr> conversations := (conversations r)(cv_conversation_id conv \<mapsto> conv) \<rparr>"

definition find_conversation_by_id :: "conversation_id \<Rightarrow> conversation_repo \<Rightarrow> conversation_entity option" where
  "find_conversation_by_id i r = conversations r i"

definition find_direct_conversation :: "direct_pair \<Rightarrow> conversation_repo \<Rightarrow> conversation_id option" where
  "find_direct_conversation pair r = direct_pairs r pair"

definition save_direct_conversation :: "direct_pair \<Rightarrow> conversation_id \<Rightarrow> conversation_repo \<Rightarrow> conversation_repo" where
  "save_direct_conversation pair i r = r\<lparr> direct_pairs := (direct_pairs r)(pair \<mapsto> i) \<rparr>"

definition save_group_metadata :: "group_metadata_entity \<Rightarrow> conversation_repo \<Rightarrow> conversation_repo" where
  "save_group_metadata meta r = r\<lparr> group_metadata := (group_metadata r)(gm_conversation_id meta \<mapsto> meta) \<rparr>"

definition find_group_metadata :: "conversation_id \<Rightarrow> conversation_repo \<Rightarrow> group_metadata_entity option" where
  "find_group_metadata i r = group_metadata r i"

section \<open>InMemoryMembershipRepository\<close>

record user_conversation_summary =
  ucs_conversation_id :: conversation_id
  ucs_type :: conversation_type
  ucs_membership_status :: membership_status
  ucs_last_activity_at :: time_point

record user_conversations_page =
  page_items :: "user_conversation_summary list"
  page_next_page_token :: "string option"

record membership_repo =
  participants :: "((conversation_id \<times> user_id) \<times> participant_entity) list"
  user_inboxes :: "user_id \<rightharpoonup> user_conversation_summary list"

definition clear_membership_repo :: membership_repo where
  "clear_membership_repo = \<lparr> participants = [], user_inboxes = (\<lambda>_. None) \<rparr>"

definition put_participant :: "participant_entity \<Rightarrow> membership_repo \<Rightarrow> membership_repo" where
  "put_participant p r =
     r\<lparr> participants := AList.update (pt_conversation_id p, pt_user_id p) p (participants r) \<rparr>"

definition repo_add_participant :: "participant_entity \<Rightarrow> membership_repo \<Rightarrow> membership_repo" where
  "repo_add_participant p r = put_participant p r"

definition repo_update_participant :: "participant_entity \<Rightarrow> membership_repo \<Rightarrow> membership_repo" where
  "repo_update_participant p r = put_participant p r"

definition find_participant :: "conversation_id \<Rightarrow> user_id \<Rightarrow> membership_repo \<Rightarrow> participant_entity option" where
  "find_participant conv_id user r = map_of (participants r) (conv_id, user)"

definition list_participants :: "conversation_id \<Rightarrow> membership_repo \<Rightarrow> participant_entity list" where
  "list_participants conv_id r = map snd (filter (\<lambda>(key, p). fst key = conv_id) (participants r))"

definition list_active_participants :: "conversation_id \<Rightarrow> membership_repo \<Rightarrow> participant_entity list" where
  "list_active_participants conv_id r =
     map snd (filter (\<lambda>(key, p). fst key = conv_id \<and> pt_status p = MS_Active) (participants r))"

text \<open>\<open>std::sort\<close> with the comparator of the inbox, which is a total order on the
  entries of one inbox: descending by activity, then by id.\<close>

definition inbox_order :: "user_conversation_summary \<Rightarrow> time_point \<times> conversation_id" where
  "inbox_order s = (ucs_last_activity_at s, ucs_conversation_id s)"

definition touch_user_conversation :: "user_id \<Rightarrow> conversation_id \<Rightarrow> conversation_type
    \<Rightarrow> membership_status \<Rightarrow> time_point \<Rightarrow> membership_repo \<Rightarrow> membership_repo" where
  "touch_user_conversation user conv_id type status activity_at r =
    (let inbox = opt_list (user_inboxes r user);
         kept = filter (\<lambda>s. ucs_conversation_id s \<noteq> conv_id) inbox;
         entry = \<lparr> ucs_conversation_id = conv_id, ucs_type = type, ucs_membership_status = status,
                   ucs_last_activity_at = activity_at \<rparr>
     in r\<lparr> user_inboxes := (user_inboxes r)(user \<mapsto> rev (sort_key inbox_order (kept @ [entry]))) \<rparr>)"

text \<open>\<open>std::stoul\<close> in base ten: leading white space, a sign, the longest run of
  digits; no digit or a value above 64 bits throws, and a minus sign negates modulo
  \<open>2 ^ 64\<close>.  \<open>std::to_string\<close> is its printer.\<close>

definition is_space :: "char \<Rightarrow> bool" where
  "is_space c = (c = CHR '' '' \<or> (9 \<le> (of_char c :: nat) \<and> (of_char c :: nat) \<le> 13))"

definition is_digit_char :: "char \<Rightarrow> bool" where
  "is_digit_char c = (48 \<le> (of_char c :: nat) \<and> (of_char c :: nat) \<le> 57)"

definition digits_value :: "string \<Rightarrow> nat" where
  "digits_value s = foldl (\<lambda>n c. 10 * n + (of_char c - 48)) 0 s"

definition stoul :: "string \<Rightarrow> nat option" where
  "stoul s =
    (let s1 = dropWhile is_space s;
         neg = (case s1 of c # _ \<Rightarrow> c = CHR ''-'' | [] \<Rightarrow> False);
         s2 = (case s1 of c # r \<Rightarrow> if c = CHR ''-'' \<or> c = CHR ''+'' then r else s1 | [] \<Rightarrow> []);
         ds = takeWhile is_digit_char s2; n = digits_value ds
     in if ds = [] \<or> n \<ge> 2 ^ 64 then None
        else Some (if neg then (2 ^ 64 - n) mod 2 ^ 64 else n))"

fun to_string_nat :: "nat \<Rightarrow> string" where
  "to_string_nat n =
    (if n < 10 then [char_of (48 + n)] else to_string_nat (n div 10) @ [char_of (48 + n mod 10)])"

declare to_string_nat.simps [simp del]

definition list_user_conversations ::
    "user_id \<Rightarrow> int \<Rightarrow> string option \<Rightarrow> membership_repo \<Rightarrow> user_conversations_page" where
  "list_user_conversations user limit page_token r =
    (let inbox = opt_list (user_inboxes r user);
         start = (case page_token of
             Some t \<Rightarrow> if t = [] then 0 else (case stoul t of Some n \<Rightarrow> n | None \<Rightarrow> 0)
           | None \<Rightarrow> 0);
         effective_limit = (if limit \<le> 0 \<or> limit > 100 then 50 else nat limit);
         end_idx = min (start + effective_limit) (length inbox)
     in if inbox = [] \<or> start \<ge> length inbox
        then \<lparr> page_items = [], page_next_page_token = None \<rparr>
        else \<lparr> page_items = take (end_idx - start) (drop start inbox),
               page_next_page_token = (if end_idx < length inbox then Some (to_string_nat end_idx) else None) \<rparr>)"

section \<open>The contract of the membership repository\<close>

text \<open>What the authorization and the service rely on: a participant that was put is
  found, the others are untouched, and the list of active participants holds exactly
  the active records that can be found.\<close>

locale membership_contract =
  fixes good :: "'r \<Rightarrow> bool"
    and find :: "conversation_id \<Rightarrow> user_id \<Rightarrow> 'r \<Rightarrow> participant_entity option"
    and active :: "conversation_id \<Rightarrow> 'r \<Rightarrow> participant_entity list"
    and put :: "participant_entity \<Rightarrow> 'r \<Rightarrow> 'r"
  assumes put_good: "good r \<Longrightarrow> good (put p r)"
    and find_put: "find c u (put p r) =
      (if (c, u) = (pt_conversation_id p, pt_user_id p) then Some p else find c u r)"
    and find_key: "good r \<Longrightarrow> find c u r = Some p \<Longrightarrow> pt_conversation_id p = c \<and> pt_user_id p = u"
    and active_iff: "good r \<Longrightarrow>
      p \<in> set (active c r) \<longleftrightarrow> find c (pt_user_id p) r = Some p \<and> pt_status p = MS_Active"
begin

text \<open>An active administrator, and the rule that a conversation with active
  members has one.\<close>

definition admin :: "conversation_id \<Rightarrow> user_id \<Rightarrow> 'r \<Rightarrow> bool" where
  "admin c u r \<longleftrightarrow> (\<exists>p. find c u r = Some p \<and> pt_status p = MS_Active \<and> pt_role p = Admin)"

definition governed :: "conversation_id \<Rightarrow> 'r \<Rightarrow> bool" where
  "governed c r \<longleftrightarrow> active c r = [] \<or> (\<exists>u. admin c u r)"

lemma governed_cong:
  assumes "good r" "good r'" "\<And>u. find c u r' = find c u r"
  shows "governed c r' = governed c r"
  using assms by (simp add: governed_def admin_def set_empty [symmetric] set_eq_iff active_iff del: set_empty)

lemma governed_admin: "admin c u r \<Longrightarrow> governed c r"
  by (auto simp: governed_def)

lemma admin_put_other: "admin c u r \<Longrightarrow> (c, u) \<noteq> (pt_conversation_id p, pt_user_id p) \<Longrightarrow> admin c u (put p r)"
  by (auto simp: admin_def find_put)

lemma governed_put_other_user:
  "good r \<Longrightarrow> admin c u r \<Longrightarrow> u \<noteq> pt_user_id p \<Longrightarrow> governed c (put p r)"
  by (auto intro!: governed_admin admin_put_other)

text \<open>A member who is not the only administrator, or is the last one, may go.\<close>

lemma governed_after_exit:
  assumes "good r" "governed c r" "pt_conversation_id p = c" "pt_status p \<noteq> MS_Active"
    and "admin c (pt_user_id p) r \<Longrightarrow>
      (\<exists>q\<in>set (active c r). pt_user_id q \<noteq> pt_user_id p \<and> pt_role q = Admin) \<or>
      (\<forall>q\<in>set (active c r). pt_user_id q = pt_user_id p)"
  shows "governed c (put p r)"
proof (cases "\<exists>u. admin c u r \<and> u \<noteq> pt_user_id p")
  case True
  with assms(1) show ?thesis by (auto intro: governed_put_other_user)
next
  case False
  have "active c (put p r) = []"
  proof (rule ccontr)
    assume "active c (put p r) \<noteq> []"
    then obtain q where "q \<in> set (active c (put p r))" by fastforce
    then have q: "find c (pt_user_id q) (put p r) = Some q" "pt_status q = MS_Active"
      using active_iff [OF put_good [OF assms(1)]] by auto
    with assms(3,4) have "pt_user_id q \<noteq> pt_user_id p" "find c (pt_user_id q) r = Some q"
      by (auto simp: find_put split: if_splits)
    moreover from this q have mem: "q \<in> set (active c r)" using active_iff [OF assms(1)] by auto
    moreover have "admin c (pt_user_id p) r"
      using assms(2) False mem by (auto simp: governed_def)
    ultimately show False
      using assms(5) False active_iff [OF assms(1)] by (auto simp: admin_def)
  qed
  then show ?thesis by (simp add: governed_def)
qed

end

section \<open>The in-memory repository keeps the contract\<close>

definition membership_ok :: "membership_repo \<Rightarrow> bool" where
  "membership_ok r \<longleftrightarrow> distinct (map fst (participants r)) \<and>
     (\<forall>(k, p)\<in>set (participants r). k = (pt_conversation_id p, pt_user_id p))"

lemma update_pairs: "x \<in> set (AList.update k v al) \<Longrightarrow> x = (k, v) \<or> x \<in> set al"
  by (induction al) (auto split: if_splits)

lemma put_participant_ok: "membership_ok r \<Longrightarrow> membership_ok (put_participant p r)"
  by (auto simp: membership_ok_def put_participant_def distinct_update dest!: update_pairs)

lemma find_participant_iff:
  assumes "membership_ok r"
  shows "find_participant c u r = Some p \<longleftrightarrow> ((c, u), p) \<in> set (participants r)"
  using assms by (simp add: find_participant_def membership_ok_def)

lemma participant_key: "membership_ok r \<Longrightarrow> (k, p) \<in> set (participants r) \<Longrightarrow> k = (pt_conversation_id p, pt_user_id p)"
  by (auto simp: membership_ok_def)

lemma mem_active_iff:
  assumes "membership_ok r"
  shows "p \<in> set (list_active_participants c r) \<longleftrightarrow>
    ((c, pt_user_id p), p) \<in> set (participants r) \<and> pt_status p = MS_Active"
proof -
  have "p \<in> set (list_active_participants c r) \<longleftrightarrow>
      (\<exists>k. (k, p) \<in> set (participants r) \<and> fst k = c) \<and> pt_status p = MS_Active"
    by (force simp: list_active_participants_def)
  also have "(\<exists>k. (k, p) \<in> set (participants r) \<and> fst k = c) \<longleftrightarrow> ((c, pt_user_id p), p) \<in> set (participants r)"
    using participant_key [OF assms] by fastforce
  finally show ?thesis .
qed

interpretation members: membership_contract membership_ok find_participant list_active_participants put_participant
proof unfold_locales
  show "membership_ok (put_participant p r)" if "membership_ok r" for r p
    using that by (rule put_participant_ok)
  show "find_participant c u (put_participant p r) =
      (if (c, u) = (pt_conversation_id p, pt_user_id p) then Some p else find_participant c u r)" for c u p r
    by (auto simp: find_participant_def put_participant_def update_conv')
  show "pt_conversation_id p = c \<and> pt_user_id p = u" if "membership_ok r" "find_participant c u r = Some p" for r c u p
    using that participant_key by (fastforce simp: find_participant_iff)
  show "p \<in> set (list_active_participants c r) \<longleftrightarrow>
      find_participant c (pt_user_id p) r = Some p \<and> pt_status p = MS_Active" if "membership_ok r" for r c p
    using that by (simp add: mem_active_iff find_participant_iff)
qed

section \<open>Pagination\<close>

lemma of_char_digit: "n < 10 \<Longrightarrow> of_char (char_of (48 + n) :: char) = 48 + (n :: nat)"
  by (simp add: of_char_of)

lemma is_digit_char_of: "n < 10 \<Longrightarrow> is_digit_char (char_of (48 + (n :: nat)))"
  by (simp add: is_digit_char_def of_char_digit)

lemma to_string_nat_digits: "to_string_nat n \<noteq> [] \<and> list_all is_digit_char (to_string_nat n)"
  by (induction n rule: to_string_nat.induct) (subst (1 2) to_string_nat.simps, simp add: is_digit_char_of)

lemma digits_value_snoc: "digits_value (s @ [c]) = 10 * digits_value s + (of_char c - 48)"
  by (simp add: digits_value_def)

lemma digits_value_to_string: "digits_value (to_string_nat n) = n"
proof (induction n rule: to_string_nat.induct)
  case (1 n)
  show ?case
  proof (cases "n < 10")
    case True
    then show ?thesis by (subst to_string_nat.simps) (simp add: digits_value_def of_char_digit)
  next
    case False
    have "of_char (char_of (48 + n mod 10) :: char) = 48 + (n mod 10 :: nat)" by (rule of_char_digit) simp
    with False 1 show ?thesis by (subst to_string_nat.simps) (simp add: digits_value_snoc)
  qed
qed

lemma stoul_to_string: "n < 2 ^ 64 \<Longrightarrow> stoul (to_string_nat n) = Some n"
proof -
  assume n: "n < 2 ^ 64"
  obtain c cs where s: "to_string_nat n = c # cs" using to_string_nat_digits [of n] by (cases "to_string_nat n") auto
  have all: "list_all is_digit_char (c # cs)" using to_string_nat_digits [of n] by (simp add: s)
  then have c: "\<not> is_space c" "c \<noteq> CHR ''-''" "c \<noteq> CHR ''+''"
    by (auto simp: is_digit_char_def is_space_def)
  have "takeWhile is_digit_char (c # cs) = c # cs" using all by (simp add: list_all_iff)
  then show "stoul (to_string_nat n) = Some n"
    using n c digits_value_to_string [of n] by (simp add: stoul_def s Let_def)
qed

text \<open>A client that follows the page tokens, at most so many times.\<close>

fun walk_pages :: "nat \<Rightarrow> user_id \<Rightarrow> int \<Rightarrow> string option \<Rightarrow> membership_repo
    \<Rightarrow> user_conversation_summary list option" where
  "walk_pages 0 user limit token r = None"
| "walk_pages (Suc k) user limit token r =
    (let page = list_user_conversations user limit token r
     in case page_next_page_token page of
          None \<Rightarrow> Some (page_items page)
        | Some t \<Rightarrow> map_option (append (page_items page)) (walk_pages k user limit (Some t) r))"

lemma walk_from:
  assumes "length (opt_list (user_inboxes r user)) < 2 ^ 64"
    and "start < length (opt_list (user_inboxes r user))"
    and "length (opt_list (user_inboxes r user)) - start \<le> k"
    and "token = Some (to_string_nat start) \<or> (token = None \<and> start = 0)"
  shows "walk_pages k user limit token r = Some (drop start (opt_list (user_inboxes r user)))"
  using assms(2-4)
proof (induction k arbitrary: start token)
  case (Suc k)
  let ?inbox = "opt_list (user_inboxes r user)"
  define step where "step = (if limit \<le> 0 \<or> limit > 100 then 50 else nat limit)"
  have step: "step \<ge> 1" by (auto simp: step_def)
  have start: "(case token of Some t \<Rightarrow> if t = [] then 0 else (case stoul t of Some n \<Rightarrow> n | None \<Rightarrow> 0) | None \<Rightarrow> 0) = start"
    using Suc.prems assms(1) to_string_nat_digits [of start] by (auto simp: stoul_to_string)
  have page: "list_user_conversations user limit token r =
      \<lparr> page_items = take (min (start + step) (length ?inbox) - start) (drop start ?inbox),
        page_next_page_token = (if start + step < length ?inbox then Some (to_string_nat (start + step)) else None) \<rparr>"
    using Suc.prems(1) by (auto simp: list_user_conversations_def Let_def start step_def)
  show ?case
  proof (cases "start + step < length ?inbox")
    case True
    then have "walk_pages k user limit (Some (to_string_nat (start + step))) r = Some (drop (start + step) ?inbox)"
      using Suc.prems(2) step by (intro Suc.IH) auto
    then show ?thesis using True append_take_drop_id [of step "drop start ?inbox"]
      by (simp add: page add.commute)
  next
    case False
    then show ?thesis by (simp add: page)
  qed
qed simp

text \<open>C25: following the page tokens of the inbox, whatever limit is asked for, ends and
  yields every entry of the inbox exactly once and in order.\<close>

theorem inbox_pages_complete:
  assumes "length (opt_list (user_inboxes r user)) < 2 ^ 64"
  shows "walk_pages (length (opt_list (user_inboxes r user)) + 1) user limit None r
    = Some (opt_list (user_inboxes r user))"
proof (cases "opt_list (user_inboxes r user) = []")
  case True
  then show ?thesis by (simp add: list_user_conversations_def)
next
  case False
  then show ?thesis
    using walk_from [OF assms, of 0 "length (opt_list (user_inboxes r user)) + 1" None limit]
    by (simp del: walk_pages.simps)
qed

definition sample_inbox :: membership_repo where
  "sample_inbox = foldl (\<lambda>r n. touch_user_conversation ''u'' [n] Group MS_Active (uint n) r)
     clear_membership_repo [1, 2, 3]"

theorem inbox_pages_complete_witness:
  "walk_pages (Suc (Suc (Suc (Suc 0)))) ''u'' 2 None sample_inbox = Some (map (\<lambda>n. \<lparr> ucs_conversation_id = [n], ucs_type = Group,
     ucs_membership_status = MS_Active, ucs_last_activity_at = uint n \<rparr>) [3, 2, 1])"
proof -
  have inbox: "opt_list (user_inboxes sample_inbox ''u'') = map (\<lambda>n. \<lparr> ucs_conversation_id = [n], ucs_type = Group,
     ucs_membership_status = MS_Active, ucs_last_activity_at = uint n \<rparr>) [3, 2, 1]"
    by code_simp
  show ?thesis using inbox_pages_complete [of sample_inbox "''u''" 2] by (simp add: inbox del: walk_pages.simps)
qed

end
