(* ===== verification/Conversation_Service.thy ===== *)
theory Conversation_Service
  imports Conversation_Repository Outbox_Event
begin

text \<open>
  \<open>ConversationAuthorizationService\<close> and \<open>ConversationService\<close>
  (\<open>src/src/messaging/service\<close>) over the in-memory repositories.  The generated
  identifiers and the clock reading of a call are parameters; texts of denials are
  dropped and their error codes kept.
\<close>

section \<open>State\<close>

text \<open>The fields of the JSON objects that the conversation events carry.\<close>

datatype conversation_payload =
    DirectCreated user_id
  | GroupCreated user_id string
  | MemberEvent user_id
  | RemovedBy user_id user_id
  | CloseReason string
  | TitleUpdated string user_id

record conversation_system =
  sys_conversations :: conversation_repo
  sys_members :: membership_repo
  sys_outbox :: "conversation_payload outbox_event list"

section \<open>Authorization\<close>

type_synonym authorization_result = "unit service_result"

definition is_closed :: "conversation_id \<Rightarrow> conversation_system \<Rightarrow> bool" where
  "is_closed conv_id y = (case find_group_metadata conv_id (sys_conversations y) of
     Some meta \<Rightarrow> gm_status meta = GS_Closed | None \<Rightarrow> False)"

definition active_participant :: "conversation_id \<Rightarrow> user_id \<Rightarrow> conversation_system \<Rightarrow> participant_entity option" where
  "active_participant conv_id user y = (case find_participant conv_id user (sys_members y) of
     Some p \<Rightarrow> if pt_status p \<noteq> MS_Active then None else Some p | None \<Rightarrow> None)"

definition parse_caller_user_id :: "string \<Rightarrow> user_id option" where
  "parse_caller_user_id ctx_user_id = (if ctx_user_id = [] then None else user_id_from_string ctx_user_id)"

definition can_view_conversation :: "user_id \<Rightarrow> conversation_id \<Rightarrow> conversation_system \<Rightarrow> authorization_result" where
  "can_view_conversation caller conv_id y =
    (case find_conversation_by_id conv_id (sys_conversations y) of
       None \<Rightarrow> Inl ERR_CONVERSATION_NOT_FOUND
     | Some conv \<Rightarrow>
        (case active_participant conv_id caller y of None \<Rightarrow> Inl ERR_NOT_A_PARTICIPANT | Some _ \<Rightarrow> Inr ()))"

definition can_send_message :: "user_id \<Rightarrow> conversation_id \<Rightarrow> conversation_system \<Rightarrow> authorization_result" where
  "can_send_message caller conv_id y =
    (case find_conversation_by_id conv_id (sys_conversations y) of
       None \<Rightarrow> Inl ERR_CONVERSATION_NOT_FOUND
     | Some conv \<Rightarrow>
        if cv_type conv = Group \<and> is_closed conv_id y then Inl ERR_CONVERSATION_NOT_FOUND
        else (case active_participant conv_id caller y of None \<Rightarrow> Inl ERR_NOT_A_PARTICIPANT | Some _ \<Rightarrow> Inr ()))"

definition can_add_participant :: "user_id \<Rightarrow> conversation_id \<Rightarrow> conversation_system \<Rightarrow> authorization_result" where
  "can_add_participant caller conv_id y =
    (case find_conversation_by_id conv_id (sys_conversations y) of
       None \<Rightarrow> Inl ERR_CONVERSATION_NOT_FOUND
     | Some conv \<Rightarrow>
        if cv_type conv = Direct then Inl ERR_UNSPECIFIED
        else if is_closed conv_id y then Inl ERR_UNSPECIFIED
        else (case active_participant conv_id caller y of
                None \<Rightarrow> Inl ERR_NOT_A_PARTICIPANT
              | Some p \<Rightarrow> if pt_role p \<noteq> Admin then Inl ERR_UNSPECIFIED else Inr ()))"

definition can_add_participant_target ::
    "user_id \<Rightarrow> conversation_id \<Rightarrow> user_id \<Rightarrow> conversation_system \<Rightarrow> authorization_result" where
  "can_add_participant_target caller conv_id target y =
    (case can_add_participant caller conv_id y of
       Inl e \<Rightarrow> Inl e
     | Inr _ \<Rightarrow> (case active_participant conv_id target y of Some _ \<Rightarrow> Inl ERR_UNSPECIFIED | None \<Rightarrow> Inr ()))"

definition can_leave_conversation :: "user_id \<Rightarrow> conversation_id \<Rightarrow> conversation_system \<Rightarrow> authorization_result" where
  "can_leave_conversation caller conv_id y =
    (case find_conversation_by_id conv_id (sys_conversations y) of
       None \<Rightarrow> Inl ERR_CONVERSATION_NOT_FOUND
     | Some conv \<Rightarrow>
        if cv_type conv = Direct then Inl ERR_UNSPECIFIED
        else (case active_participant conv_id caller y of
                None \<Rightarrow> Inl ERR_NOT_A_PARTICIPANT
              | Some p \<Rightarrow>
                 if pt_role p = Admin then
                   (let others = filter (\<lambda>q. pt_user_id q \<noteq> caller) (list_active_participants conv_id (sys_members y));
                        other_active_admins = length (filter (\<lambda>q. pt_role q = Admin) others);
                        other_active_members = length (filter (\<lambda>q. pt_role q \<noteq> Admin) others)
                    in if other_active_admins = 0 \<and> other_active_members > 0 then Inl ERR_UNSPECIFIED else Inr ())
                 else Inr ()))"

definition can_remove_participant ::
    "user_id \<Rightarrow> conversation_id \<Rightarrow> user_id \<Rightarrow> conversation_system \<Rightarrow> authorization_result" where
  "can_remove_participant caller conv_id target y =
    (case find_conversation_by_id conv_id (sys_conversations y) of
       None \<Rightarrow> Inl ERR_CONVERSATION_NOT_FOUND
     | Some conv \<Rightarrow>
        if cv_type conv = Direct then Inl ERR_UNSPECIFIED
        else if is_closed conv_id y then Inl ERR_UNSPECIFIED
        else if caller = target then can_leave_conversation caller conv_id y
        else (case active_participant conv_id caller y of
                None \<Rightarrow> Inl ERR_NOT_A_PARTICIPANT
              | Some p \<Rightarrow>
                 if pt_role p \<noteq> Admin then Inl ERR_UNSPECIFIED
                 else (case active_participant conv_id target y of
                         None \<Rightarrow> Inl ERR_NOT_A_PARTICIPANT | Some _ \<Rightarrow> Inr ())))"

definition can_update_metadata :: "user_id \<Rightarrow> conversation_id \<Rightarrow> conversation_system \<Rightarrow> authorization_result" where
  "can_update_metadata caller conv_id y =
    (case find_conversation_by_id conv_id (sys_conversations y) of
       None \<Rightarrow> Inl ERR_CONVERSATION_NOT_FOUND
     | Some conv \<Rightarrow>
        if cv_type conv = Direct then Inl ERR_UNSPECIFIED
        else if is_closed conv_id y then Inl ERR_UNSPECIFIED
        else (case active_participant conv_id caller y of
                None \<Rightarrow> Inl ERR_NOT_A_PARTICIPANT
              | Some p \<Rightarrow> if pt_role p \<noteq> Admin then Inl ERR_UNSPECIFIED else Inr ()))"

definition can_close_conversation :: "user_id \<Rightarrow> conversation_id \<Rightarrow> conversation_system \<Rightarrow> authorization_result" where
  "can_close_conversation caller conv_id y =
    (case find_conversation_by_id conv_id (sys_conversations y) of
       None \<Rightarrow> Inl ERR_CONVERSATION_NOT_FOUND
     | Some conv \<Rightarrow>
        if cv_type conv = Direct then Inl ERR_UNSPECIFIED
        else if is_closed conv_id y then Inl ERR_UNSPECIFIED
        else (case active_participant conv_id caller y of
                None \<Rightarrow> Inl ERR_NOT_A_PARTICIPANT
              | Some p \<Rightarrow> if pt_role p \<noteq> Admin then Inl ERR_UNSPECIFIED else Inr ()))"

text \<open>The overloads for a caller context check its user id first.\<close>

definition can_view_conversation_ctx :: "string \<Rightarrow> conversation_id \<Rightarrow> conversation_system \<Rightarrow> authorization_result" where
  "can_view_conversation_ctx ctx conv_id y = (case parse_caller_user_id ctx of
     None \<Rightarrow> Inl ERR_UNSPECIFIED | Some u \<Rightarrow> can_view_conversation u conv_id y)"

definition can_send_message_ctx :: "string \<Rightarrow> conversation_id \<Rightarrow> conversation_system \<Rightarrow> authorization_result" where
  "can_send_message_ctx ctx conv_id y = (case parse_caller_user_id ctx of
     None \<Rightarrow> Inl ERR_UNSPECIFIED | Some u \<Rightarrow> can_send_message u conv_id y)"

definition can_add_participant_ctx :: "string \<Rightarrow> conversation_id \<Rightarrow> conversation_system \<Rightarrow> authorization_result" where
  "can_add_participant_ctx ctx conv_id y = (case parse_caller_user_id ctx of
     None \<Rightarrow> Inl ERR_UNSPECIFIED | Some u \<Rightarrow> can_add_participant u conv_id y)"

definition can_add_participant_target_ctx ::
    "string \<Rightarrow> conversation_id \<Rightarrow> user_id \<Rightarrow> conversation_system \<Rightarrow> authorization_result" where
  "can_add_participant_target_ctx ctx conv_id target y = (case parse_caller_user_id ctx of
     None \<Rightarrow> Inl ERR_UNSPECIFIED | Some u \<Rightarrow> can_add_participant_target u conv_id target y)"

definition can_remove_participant_ctx ::
    "string \<Rightarrow> conversation_id \<Rightarrow> user_id \<Rightarrow> conversation_system \<Rightarrow> authorization_result" where
  "can_remove_participant_ctx ctx conv_id target y = (case parse_caller_user_id ctx of
     None \<Rightarrow> Inl ERR_UNSPECIFIED | Some u \<Rightarrow> can_remove_participant u conv_id target y)"

definition can_leave_conversation_ctx :: "string \<Rightarrow> conversation_id \<Rightarrow> conversation_system \<Rightarrow> authorization_result" where
  "can_leave_conversation_ctx ctx conv_id y = (case parse_caller_user_id ctx of
     None \<Rightarrow> Inl ERR_UNSPECIFIED | Some u \<Rightarrow> can_leave_conversation u conv_id y)"

definition can_update_metadata_ctx :: "string \<Rightarrow> conversation_id \<Rightarrow> conversation_system \<Rightarrow> authorization_result" where
  "can_update_metadata_ctx ctx conv_id y = (case parse_caller_user_id ctx of
     None \<Rightarrow> Inl ERR_UNSPECIFIED | Some u \<Rightarrow> can_update_metadata u conv_id y)"

definition can_close_conversation_ctx :: "string \<Rightarrow> conversation_id \<Rightarrow> conversation_system \<Rightarrow> authorization_result" where
  "can_close_conversation_ctx ctx conv_id y = (case parse_caller_user_id ctx of
     None \<Rightarrow> Inl ERR_UNSPECIFIED | Some u \<Rightarrow> can_close_conversation u conv_id y)"

fun any_mutual :: "user_id \<Rightarrow> user_conversation_summary list \<Rightarrow> conversation_system \<Rightarrow> bool" where
  "any_mutual target [] y = False"
| "any_mutual target (item # items) y =
    (if ucs_membership_status item \<noteq> MS_Active then any_mutual target items y
     else if active_participant (ucs_conversation_id item) target y \<noteq> None then True
     else any_mutual target items y)"

definition shares_mutual_conversation :: "user_id \<Rightarrow> user_id \<Rightarrow> conversation_system \<Rightarrow> bool" where
  "shares_mutual_conversation caller target y =
    (if caller = target then True
     else any_mutual target (page_items (list_user_conversations caller 100 None (sys_members y))) y)"

section \<open>ConversationService\<close>

definition get_outbox_events :: "conversation_system \<Rightarrow> conversation_payload outbox_event list" where
  "get_outbox_events y = sys_outbox y"

definition clear_outbox_events :: "conversation_system \<Rightarrow> conversation_system" where
  "clear_outbox_events y = y\<lparr> sys_outbox := [] \<rparr>"

definition record_outbox_event :: "string \<Rightarrow> time_point \<Rightarrow> conversation_id \<Rightarrow> outbox_event_type
    \<Rightarrow> conversation_payload \<Rightarrow> conversation_system \<Rightarrow> conversation_system" where
  "record_outbox_event event_id now conv_id type payload y =
     y\<lparr> sys_outbox := sys_outbox y @ [\<lparr> ev_event_id = event_id, ev_conversation_id = conv_id,
          ev_event_type = type, ev_payload = payload, ev_created_at = now \<rparr>] \<rparr>"

definition new_participant :: "conversation_id \<Rightarrow> user_id \<Rightarrow> participant_role \<Rightarrow> time_point \<Rightarrow> participant_entity" where
  "new_participant conv_id user role now =
     \<lparr> pt_conversation_id = conv_id, pt_user_id = user, pt_role = role, pt_status = MS_Active,
       pt_joined_at = now, pt_left_at = None, pt_membership_version = 1 \<rparr>"

definition on_conversations :: "(conversation_repo \<Rightarrow> conversation_repo) \<Rightarrow> conversation_system \<Rightarrow> conversation_system" where
  "on_conversations f y = y\<lparr> sys_conversations := f (sys_conversations y) \<rparr>"

definition on_members :: "(membership_repo \<Rightarrow> membership_repo) \<Rightarrow> conversation_system \<Rightarrow> conversation_system" where
  "on_members f y = y\<lparr> sys_members := f (sys_members y) \<rparr>"

definition create_direct_conversation :: "conversation_id \<Rightarrow> string \<Rightarrow> time_point \<Rightarrow> user_id \<Rightarrow> user_id
    \<Rightarrow> conversation_system \<Rightarrow> conversation_entity service_result \<times> conversation_system" where
  "create_direct_conversation conv_id event_id now caller recipient y =
    (case make_direct_pair caller recipient of
       None \<Rightarrow> (Inl ERR_UNSPECIFIED, y)
     | Some pair \<Rightarrow>
        (case Option.bind (find_direct_conversation pair (sys_conversations y))
                (\<lambda>i. find_conversation_by_id i (sys_conversations y)) of
           Some existing_conv \<Rightarrow> (Inr existing_conv, y)
         | None \<Rightarrow>
            (let conv = \<lparr> cv_conversation_id = conv_id, cv_type = Direct, cv_created_by_user_id = caller,
                          cv_created_at = now, cv_metadata_version = 1 \<rparr>;
                 y1 = on_conversations (save_direct_conversation pair conv_id \<circ> save_conversation conv) y;
                 y2 = on_members (repo_add_participant (new_participant conv_id recipient Member now)
                        \<circ> repo_add_participant (new_participant conv_id caller Member now)) y1;
                 y3 = on_members (touch_user_conversation recipient conv_id Direct MS_Active now
                        \<circ> touch_user_conversation caller conv_id Direct MS_Active now) y2
             in (Inr conv,
                 record_outbox_event event_id now conv_id ConversationCreated (DirectCreated caller) y3))))"

fun add_members :: "conversation_id \<Rightarrow> time_point \<Rightarrow> user_id list \<Rightarrow> user_id set \<Rightarrow> membership_repo \<Rightarrow> membership_repo" where
  "add_members conv_id now [] added r = r"
| "add_members conv_id now (uid # uids) added r =
    (if uid \<in> added then add_members conv_id now uids added r
     else add_members conv_id now uids (insert uid added)
            (touch_user_conversation uid conv_id Group MS_Active now
              (repo_add_participant (new_participant conv_id uid Member now) r)))"

definition create_group_conversation :: "conversation_id \<Rightarrow> string \<Rightarrow> time_point \<Rightarrow> user_id \<Rightarrow> string \<Rightarrow> user_id list
    \<Rightarrow> conversation_system \<Rightarrow> conversation_entity service_result \<times> conversation_system" where
  "create_group_conversation conv_id event_id now caller title initial_participant_user_ids y =
    (if title = [] \<or> length title > 256 then (Inl ERR_UNSPECIFIED, y)
     else
      (let conv = \<lparr> cv_conversation_id = conv_id, cv_type = Group, cv_created_by_user_id = caller,
                    cv_created_at = now, cv_metadata_version = 1 \<rparr>;
           meta = \<lparr> gm_conversation_id = conv_id, gm_title = title, gm_status = GS_Active,
                    gm_created_at = now, gm_updated_at = now, gm_metadata_version = 1 \<rparr>;
           y1 = on_conversations (save_group_metadata meta \<circ> save_conversation conv) y;
           y2 = on_members (touch_user_conversation caller conv_id Group MS_Active now
                  \<circ> repo_add_participant (new_participant conv_id caller Admin now)) y1;
           y3 = on_members (add_members conv_id now initial_participant_user_ids {caller}) y2
       in (Inr conv, record_outbox_event event_id now conv_id ConversationCreated (GroupCreated caller title) y3)))"

definition add_participant :: "string \<Rightarrow> time_point \<Rightarrow> user_id \<Rightarrow> conversation_id \<Rightarrow> user_id
    \<Rightarrow> conversation_system \<Rightarrow> unit service_result \<times> conversation_system" where
  "add_participant event_id now caller conv_id target y =
    (case can_add_participant caller conv_id y of
       Inl e \<Rightarrow> (Inl e, y)
     | Inr _ \<Rightarrow>
        (let existing = find_participant conv_id target (sys_members y) in
         if (case existing of Some p \<Rightarrow> pt_status p = MS_Active | None \<Rightarrow> False) then (Inr (), y)
         else
          (let y1 = (case existing of
                 Some p \<Rightarrow> on_members (repo_update_participant
                   (p\<lparr> pt_status := MS_Active, pt_joined_at := now, pt_left_at := None,
                       pt_membership_version := pt_membership_version p + 1 \<rparr>)) y
               | None \<Rightarrow> on_members (repo_add_participant (new_participant conv_id target Member now)) y);
               y2 = on_members (touch_user_conversation target conv_id Group MS_Active now) y1
           in (Inr (), record_outbox_event event_id now conv_id ParticipantJoined (MemberEvent target) y2))))"

definition exit_participant :: "membership_status \<Rightarrow> time_point \<Rightarrow> participant_entity \<Rightarrow> participant_entity" where
  "exit_participant status now p =
     p\<lparr> pt_status := status, pt_left_at := Some now, pt_membership_version := pt_membership_version p + 1 \<rparr>"

definition remove_participant :: "string \<Rightarrow> time_point \<Rightarrow> user_id \<Rightarrow> conversation_id \<Rightarrow> user_id
    \<Rightarrow> conversation_system \<Rightarrow> unit service_result \<times> conversation_system" where
  "remove_participant event_id now caller conv_id target y =
    (case can_remove_participant caller conv_id target y of
       Inl e \<Rightarrow> (Inl e, y)
     | Inr _ \<Rightarrow>
        (case find_participant conv_id target (sys_members y) of
           None \<Rightarrow> (Inl ERR_NOT_A_PARTICIPANT, y)
         | Some existing \<Rightarrow>
            (let y1 = on_members (touch_user_conversation target conv_id Group MS_Removed now
                   \<circ> repo_update_participant (exit_participant MS_Removed now existing)) y
             in (Inr (), record_outbox_event event_id now conv_id ParticipantRemoved (RemovedBy target caller) y1))))"

definition close_if_empty :: "string \<Rightarrow> time_point \<Rightarrow> conversation_id \<Rightarrow> conversation_system \<Rightarrow> conversation_system" where
  "close_if_empty event_id now conv_id y =
    (if list_active_participants conv_id (sys_members y) \<noteq> [] then y
     else case find_group_metadata conv_id (sys_conversations y) of
         None \<Rightarrow> y
       | Some meta \<Rightarrow> record_outbox_event event_id now conv_id ConversationClosed (CloseReason ''all_participants_left'')
           (on_conversations (save_group_metadata (meta\<lparr> gm_status := GS_Closed, gm_updated_at := now,
              gm_metadata_version := gm_metadata_version meta + 1 \<rparr>)) y))"

definition leave_conversation :: "string \<Rightarrow> string \<Rightarrow> time_point \<Rightarrow> user_id \<Rightarrow> conversation_id
    \<Rightarrow> conversation_system \<Rightarrow> unit service_result \<times> conversation_system" where
  "leave_conversation event_id close_event_id now caller conv_id y =
    (case can_leave_conversation caller conv_id y of
       Inl e \<Rightarrow> (Inl e, y)
     | Inr _ \<Rightarrow>
        (case find_participant conv_id caller (sys_members y) of
           None \<Rightarrow> (Inl ERR_NOT_A_PARTICIPANT, y)
         | Some existing \<Rightarrow>
            (let y1 = on_members (touch_user_conversation caller conv_id Group MS_Left now
                   \<circ> repo_update_participant (exit_participant MS_Left now existing)) y;
                 y2 = record_outbox_event event_id now conv_id ParticipantLeft (MemberEvent caller) y1
             in (Inr (), close_if_empty close_event_id now conv_id y2))))"

definition update_group_metadata :: "string \<Rightarrow> time_point \<Rightarrow> user_id \<Rightarrow> conversation_id \<Rightarrow> string
    \<Rightarrow> conversation_system \<Rightarrow> group_metadata_entity service_result \<times> conversation_system" where
  "update_group_metadata event_id now caller conv_id new_title y =
    (if new_title = [] \<or> length new_title > 256 then (Inl ERR_UNSPECIFIED, y)
     else case can_update_metadata caller conv_id y of
         Inl e \<Rightarrow> (Inl e, y)
       | Inr _ \<Rightarrow>
          (case find_group_metadata conv_id (sys_conversations y) of
             None \<Rightarrow> (Inl ERR_CONVERSATION_NOT_FOUND, y)
           | Some meta \<Rightarrow>
              (let updated = meta\<lparr> gm_title := new_title, gm_updated_at := now,
                               gm_metadata_version := gm_metadata_version meta + 1 \<rparr>
               in (Inr updated, record_outbox_event event_id now conv_id GroupMetadataUpdated
                     (TitleUpdated new_title caller) (on_conversations (save_group_metadata updated) y)))))"

record conversation_details =
  cd_conversation :: conversation_entity
  cd_group_metadata :: "group_metadata_entity option"
  cd_active_participants :: "participant_entity list"

definition get_conversation :: "user_id \<Rightarrow> conversation_id \<Rightarrow> conversation_system
    \<Rightarrow> conversation_details service_result" where
  "get_conversation caller conv_id y =
    (case can_view_conversation caller conv_id y of
       Inl e \<Rightarrow> Inl e
     | Inr _ \<Rightarrow>
        (case find_conversation_by_id conv_id (sys_conversations y) of
           None \<Rightarrow> Inl ERR_CONVERSATION_NOT_FOUND
         | Some conv \<Rightarrow> Inr \<lparr> cd_conversation = conv,
             cd_group_metadata = (if cv_type conv = Group
                then find_group_metadata conv_id (sys_conversations y) else None),
             cd_active_participants = list_active_participants conv_id (sys_members y) \<rparr>))"

definition service_list_user_conversations :: "user_id \<Rightarrow> int \<Rightarrow> string option \<Rightarrow> conversation_system
    \<Rightarrow> user_conversations_page service_result" where
  "service_list_user_conversations caller limit page_token y =
     Inr (list_user_conversations caller limit page_token (sys_members y))"

definition new_system :: conversation_system where
  "new_system = \<lparr> sys_conversations = clear_conversation_repo, sys_members = clear_membership_repo, sys_outbox = [] \<rparr>"

section \<open>Runs of the service\<close>

text \<open>Generated conversation ids are new: they name no conversation and no membership.\<close>

definition fresh_conversation :: "conversation_id \<Rightarrow> conversation_system \<Rightarrow> bool" where
  "fresh_conversation c y \<longleftrightarrow> find_conversation_by_id c (sys_conversations y) = None \<and>
     (\<forall>u. find_participant c u (sys_members y) = None)"

inductive service_step :: "conversation_system \<Rightarrow> conversation_system \<Rightarrow> bool" where
  svc_direct: "fresh_conversation c y \<Longrightarrow> create_direct_conversation c ev now u v y = (res, y') \<Longrightarrow> service_step y y'"
| svc_group: "fresh_conversation c y \<Longrightarrow> create_group_conversation c ev now u title vs y = (res, y') \<Longrightarrow> service_step y y'"
| svc_add: "add_participant ev now u c v y = (res, y') \<Longrightarrow> service_step y y'"
| svc_remove: "remove_participant ev now u c v y = (res, y') \<Longrightarrow> service_step y y'"
| svc_leave: "leave_conversation ev ev' now u c y = (res, y') \<Longrightarrow> service_step y y'"
| svc_update: "update_group_metadata ev now u c title y = (res, y') \<Longrightarrow> service_step y y'"
| svc_clear: "service_step y (clear_outbox_events y)"

section \<open>Effects on the repositories\<close>

lemma touch_participants [simp]: "participants (touch_user_conversation u c ty st t r) = participants r"
  by (simp add: touch_user_conversation_def Let_def)

lemma touch_views [simp]:
  "find_participant c' u' (touch_user_conversation u c ty st t r) = find_participant c' u' r"
  "list_active_participants c' (touch_user_conversation u c ty st t r) = list_active_participants c' r"
  "membership_ok (touch_user_conversation u c ty st t r) = membership_ok r"
  by (simp_all add: find_participant_def list_active_participants_def membership_ok_def)

lemma touch_contract [simp]:
  "members.admin c' u' (touch_user_conversation u c ty st t r) = members.admin c' u' r"
  "members.governed c' (touch_user_conversation u c ty st t r) = members.governed c' r"
  by (simp_all add: members.admin_def members.governed_def)

lemmas repo_put [simp] = repo_add_participant_def repo_update_participant_def

lemma new_participant_fields [simp]:
  "pt_conversation_id (new_participant c u role t) = c" "pt_user_id (new_participant c u role t) = u"
  "pt_role (new_participant c u role t) = role" "pt_status (new_participant c u role t) = MS_Active"
  by (simp_all add: new_participant_def)

lemma exit_participant_fields [simp]:
  "pt_conversation_id (exit_participant st t p) = pt_conversation_id p"
  "pt_user_id (exit_participant st t p) = pt_user_id p" "pt_status (exit_participant st t p) = st"
  "pt_role (exit_participant st t p) = pt_role p"
  by (simp_all add: exit_participant_def)

declare members.put_good [simp] members.find_put [simp]

lemma add_members_ok: "membership_ok r \<Longrightarrow> membership_ok (add_members c t us added r)"
  by (induction c t us added r rule: add_members.induct) simp_all

lemma add_members_find:
  "find_participant c' u (add_members c t us added r) =
    (if c' = c \<and> u \<in> set us \<and> u \<notin> added then Some (new_participant c u Member t) else find_participant c' u r)"
  by (induction c t us added r rule: add_members.induct) auto

section \<open>The invariant of the service\<close>

text \<open>A group with active members has an active administrator; a direct conversation
  belongs to one pair, and its members are that pair, both active.\<close>

definition roster :: "direct_pair \<Rightarrow> conversation_id \<Rightarrow> membership_repo \<Rightarrow> bool" where
  "roster pair c r \<longleftrightarrow> dp_user_a pair \<noteq> dp_user_b pair \<and>
     (\<forall>u. (\<exists>p. find_participant c u r = Some p) \<longleftrightarrow> u \<in> {dp_user_a pair, dp_user_b pair}) \<and>
     (\<forall>u p. find_participant c u r = Some p \<longrightarrow> pt_status p = MS_Active \<and> pt_role p = Member)"

definition service_inv :: "conversation_system \<Rightarrow> bool" where
  "service_inv y \<longleftrightarrow> membership_ok (sys_members y) \<and>
     (\<forall>c conv. conversations (sys_conversations y) c = Some conv \<longrightarrow> cv_type conv = Group \<longrightarrow>
        members.governed c (sys_members y)) \<and>
     (\<forall>c conv. conversations (sys_conversations y) c = Some conv \<longrightarrow> cv_type conv = Direct \<longrightarrow>
        (\<exists>pair. direct_pairs (sys_conversations y) pair = Some c)) \<and>
     (\<forall>pair c. direct_pairs (sys_conversations y) pair = Some c \<longrightarrow>
        roster pair c (sys_members y) \<and>
        (\<exists>conv. conversations (sys_conversations y) c = Some conv \<and> cv_type conv = Direct))"

lemma roster_cong: "(\<And>u. find_participant c u r' = find_participant c u r) \<Longrightarrow> roster pair c r' = roster pair c r"
  by (simp add: roster_def)

lemma inv_pairD:
  assumes "service_inv y" "direct_pairs (sys_conversations y) pair = Some c"
  obtains conv where "roster pair c (sys_members y)" "conversations (sys_conversations y) c = Some conv"
    "cv_type conv = Direct"
  using assms unfolding service_inv_def by blast

lemma inv_directD:
  assumes "service_inv y" "conversations (sys_conversations y) c = Some conv" "cv_type conv = Direct"
  obtains pair where "direct_pairs (sys_conversations y) pair = Some c"
  using assms unfolding service_inv_def by blast

lemma inv_groupD:
  assumes "service_inv y" "conversations (sys_conversations y) c = Some conv" "cv_type conv = Group"
  shows "members.governed c (sys_members y)"
  using assms unfolding service_inv_def by blast

lemma inv_membersD: "service_inv y \<Longrightarrow> membership_ok (sys_members y)"
  by (simp add: service_inv_def)

text \<open>Changing the members of one group.\<close>

lemma inv_group_members:
  assumes "service_inv y" "conversations (sys_conversations y) c = Some conv" "cv_type conv = Group"
    and "conversations (sys_conversations y') = conversations (sys_conversations y)"
    and "direct_pairs (sys_conversations y') = direct_pairs (sys_conversations y)"
    and "membership_ok (sys_members y')" "members.governed c (sys_members y')"
    and "\<And>c' u. c' \<noteq> c \<Longrightarrow> find_participant c' u (sys_members y') = find_participant c' u (sys_members y)"
  shows "service_inv y'"
  unfolding service_inv_def assms(4,5)
proof (intro conjI allI impI)
  fix c' conv' assume "conversations (sys_conversations y) c' = Some conv'" "cv_type conv' = Group"
  then have "members.governed c' (sys_members y)" by (rule inv_groupD [OF assms(1)])
  moreover have "members.governed c' (sys_members y') = members.governed c' (sys_members y)" if "c' \<noteq> c"
    by (rule members.governed_cong [OF inv_membersD [OF assms(1)] assms(6) assms(8) [OF that]])
  ultimately show "members.governed c' (sys_members y')" using assms(7) by metis
next
  fix pair c' assume pair: "direct_pairs (sys_conversations y) pair = Some c'"
  from assms(1) this obtain conv' where c': "roster pair c' (sys_members y)"
      "conversations (sys_conversations y) c' = Some conv'" "cv_type conv' = Direct"
    by (rule inv_pairD)
  then have "c' \<noteq> c" using assms(2,3) by auto
  then show "roster pair c' (sys_members y')" using c'(1) roster_cong [OF assms(8)] by metis
  from c' show "\<exists>conv. conversations (sys_conversations y) c' = Some conv \<and> cv_type conv = Direct" by blast
qed (use assms(6) in \<open>auto elim: inv_directD [OF assms(1)]\<close>)

lemma inv_only_metadata:
  assumes "service_inv y" "conversations (sys_conversations y') = conversations (sys_conversations y)"
    and "direct_pairs (sys_conversations y') = direct_pairs (sys_conversations y)" "sys_members y' = sys_members y"
  shows "service_inv y'"
  using assms(1) unfolding service_inv_def assms(2-4) .

lemmas repo_fields = on_conversations_def on_members_def record_outbox_event_def save_conversation_def
  save_direct_conversation_def save_group_metadata_def

text \<open>Creating a conversation under a new id.\<close>

lemma inv_new_conversation:
  assumes "service_inv y" "fresh_conversation c y"
    and "conversations (sys_conversations y') = (conversations (sys_conversations y))(c \<mapsto> conv)"
    and "membership_ok (sys_members y')"
    and "\<And>c' u. c' \<noteq> c \<Longrightarrow> find_participant c' u (sys_members y') = find_participant c' u (sys_members y)"
    and "(cv_type conv = Group \<and> members.governed c (sys_members y') \<and>
           direct_pairs (sys_conversations y') = direct_pairs (sys_conversations y)) \<or>
         (cv_type conv = Direct \<and> roster pair c (sys_members y') \<and>
           direct_pairs (sys_conversations y) pair = None \<and>
           direct_pairs (sys_conversations y') = (direct_pairs (sys_conversations y))(pair \<mapsto> c))"
  shows "service_inv y'"
  unfolding service_inv_def
proof (intro conjI allI impI)
  fix c' conv' assume c': "conversations (sys_conversations y') c' = Some conv'" "cv_type conv' = Group"
  show "members.governed c' (sys_members y')"
  proof (cases "c' = c")
    case False
    with c' assms(3) have "members.governed c' (sys_members y)" by (intro inv_groupD [OF assms(1)]) auto
    with members.governed_cong [OF inv_membersD [OF assms(1)] assms(4) assms(5) [OF False]] show ?thesis by simp
  qed (use c' assms(3,6) in auto)
next
  fix c' conv' assume c': "conversations (sys_conversations y') c' = Some conv'" "cv_type conv' = Direct"
  show "\<exists>pair. direct_pairs (sys_conversations y') pair = Some c'"
  proof (cases "c' = c")
    case False
    with c' assms(3) obtain pair' where "direct_pairs (sys_conversations y) pair' = Some c'"
      using inv_directD [OF assms(1)] by auto
    with assms(6) have "direct_pairs (sys_conversations y') pair' = Some c'" by auto
    then show ?thesis ..
  qed (use c' assms(3,6) in auto)
next
  fix pair' c' assume pair': "direct_pairs (sys_conversations y') pair' = Some c'"
  have "roster pair' c' (sys_members y') \<and>
      (\<exists>conv. conversations (sys_conversations y') c' = Some conv \<and> cv_type conv = Direct)"
  proof (cases "direct_pairs (sys_conversations y) pair' = Some c'")
    case True
    from assms(1) this obtain conv' where old: "roster pair' c' (sys_members y)"
        "conversations (sys_conversations y) c' = Some conv'" "cv_type conv' = Direct"
      by (rule inv_pairD)
    then have "c' \<noteq> c" using assms(2) by (auto simp: fresh_conversation_def find_conversation_by_id_def)
    with old assms(3,5) roster_cong [of c' "sys_members y'" "sys_members y" pair'] show ?thesis by auto
  qed (use pair' assms(3,6) in \<open>auto split: if_splits\<close>)
  then show "roster pair' c' (sys_members y')"
    "\<exists>conv. conversations (sys_conversations y') c' = Some conv \<and> cv_type conv = Direct" by blast+
qed (fact assms(4))

section \<open>What the authorization guarantees\<close>

lemma active_participant_iff:
  "active_participant c u y = Some p \<longleftrightarrow> find_participant c u (sys_members y) = Some p \<and> pt_status p = MS_Active"
  by (auto simp: active_participant_def split: option.splits)

lemma auth_admin:
  assumes "can_add_participant u c y = Inr () \<or> can_update_metadata u c y = Inr () \<or> can_close_conversation u c y = Inr ()"
  shows "\<exists>conv. conversations (sys_conversations y) c = Some conv \<and> cv_type conv = Group"
    "members.admin c u (sys_members y)" "\<not> is_closed c y"
  using assms
  by (auto simp: can_add_participant_def can_update_metadata_def can_close_conversation_def members.admin_def
      find_conversation_by_id_def active_participant_iff split: option.splits if_splits conversation_type.splits)
    (metis conversation_type.exhaust)+

lemma auth_leave:
  assumes "can_leave_conversation u c y = Inr ()"
  obtains conv p where "conversations (sys_conversations y) c = Some conv" "cv_type conv = Group"
    "find_participant c u (sys_members y) = Some p" "pt_status p = MS_Active"
    "members.admin c u (sys_members y) \<longrightarrow>
      (\<exists>q\<in>set (list_active_participants c (sys_members y)). pt_user_id q \<noteq> u \<and> pt_role q = Admin) \<or>
      (\<forall>q\<in>set (list_active_participants c (sys_members y)). pt_user_id q = u)"
proof -
  obtain conv p where ok: "conversations (sys_conversations y) c = Some conv" "cv_type conv \<noteq> Direct"
      "active_participant c u y = Some p"
    using assms by (auto simp: can_leave_conversation_def find_conversation_by_id_def split: option.splits if_splits)
  moreover have "(\<exists>q\<in>set (list_active_participants c (sys_members y)). pt_user_id q \<noteq> u \<and> pt_role q = Admin) \<or>
      (\<forall>q\<in>set (list_active_participants c (sys_members y)). pt_user_id q = u)"
    if "members.admin c u (sys_members y)"
  proof -
    have "pt_role p = Admin" using that ok(3) by (simp add: members.admin_def active_participant_iff)
    then show ?thesis
      using assms ok
      by (auto simp: can_leave_conversation_def find_conversation_by_id_def Let_def filter_empty_conv split: if_splits)
  qed
  moreover have "cv_type conv = Group" using ok(2) by (cases "cv_type conv") auto
  ultimately show ?thesis by (intro that) (auto simp: active_participant_iff)
qed

lemma auth_remove:
  assumes "can_remove_participant u c v y = Inr ()"
  obtains "u = v" "can_leave_conversation u c y = Inr ()" "\<not> is_closed c y"
  | conv p where "u \<noteq> v" "conversations (sys_conversations y) c = Some conv" "cv_type conv = Group"
      "members.admin c u (sys_members y)" "find_participant c v (sys_members y) = Some p" "pt_status p = MS_Active"
      "\<not> is_closed c y"
proof (cases "u = v")
  case True
  with assms show ?thesis by (intro that(1)) (auto simp: can_remove_participant_def split: option.splits if_splits)
next
  case False
  obtain conv where conv: "conversations (sys_conversations y) c = Some conv" "cv_type conv \<noteq> Direct" "\<not> is_closed c y"
    using assms by (auto simp: can_remove_participant_def find_conversation_by_id_def split: option.splits if_splits)
  then have group: "cv_type conv = Group" by (cases "cv_type conv") auto
  have "members.admin c u (sys_members y)" "\<exists>p. active_participant c v y = Some p"
    using assms False conv
    by (auto simp: can_remove_participant_def find_conversation_by_id_def members.admin_def active_participant_iff
        split: option.splits if_splits)
  then show ?thesis using False conv group by (auto simp: active_participant_iff intro: that(2))
qed

section \<open>Every operation keeps the invariant\<close>

lemma on_members_fields [simp]:
  "sys_members (on_members f y) = f (sys_members y)" "sys_conversations (on_members f y) = sys_conversations y"
  "sys_members (on_conversations g y) = sys_members y" "sys_conversations (on_conversations g y) = g (sys_conversations y)"
  "sys_members (record_outbox_event e t c ty pl y) = sys_members y"
  "sys_conversations (record_outbox_event e t c ty pl y) = sys_conversations y"
  by (simp_all add: on_members_def on_conversations_def record_outbox_event_def)

lemma save_fields [simp]:
  "conversations (save_conversation conv r) = (conversations r)(cv_conversation_id conv \<mapsto> conv)"
  "direct_pairs (save_conversation conv r) = direct_pairs r"
  "group_metadata (save_conversation conv r) = group_metadata r"
  "conversations (save_direct_conversation pair c r) = conversations r"
  "direct_pairs (save_direct_conversation pair c r) = (direct_pairs r)(pair \<mapsto> c)"
  "group_metadata (save_direct_conversation pair c r) = group_metadata r"
  "conversations (save_group_metadata m r) = conversations r"
  "direct_pairs (save_group_metadata m r) = direct_pairs r"
  "group_metadata (save_group_metadata m r) = (group_metadata r)(gm_conversation_id m \<mapsto> m)"
  by (simp_all add: save_conversation_def save_direct_conversation_def save_group_metadata_def)

lemma close_if_empty_fields [simp]:
  "sys_members (close_if_empty e t c y) = sys_members y"
  "conversations (sys_conversations (close_if_empty e t c y)) = conversations (sys_conversations y)"
  "direct_pairs (sys_conversations (close_if_empty e t c y)) = direct_pairs (sys_conversations y)"
  by (simp_all add: close_if_empty_def split: option.split)

text \<open>The members after a step that changes one record.\<close>

lemma inv_put_participant:
  assumes "service_inv y" "conversations (sys_conversations y) c = Some conv" "cv_type conv = Group"
    and "pt_conversation_id p = c" "members.governed c (put_participant p (sys_members y))"
    and "sys_members y' = touch_user_conversation u c' ty st t (put_participant p (sys_members y))"
    and "conversations (sys_conversations y') = conversations (sys_conversations y)"
    and "direct_pairs (sys_conversations y') = direct_pairs (sys_conversations y)"
  shows "service_inv y'"
  using assms(4,5) inv_membersD [OF assms(1)]
  by (intro inv_group_members [OF assms(1-3,7,8)]) (simp_all add: assms(6))

lemma add_participant_elim:
  assumes "add_participant ev now u c v y = (res, y')" "membership_ok (sys_members y)"
  obtains (Same) "y' = y"
  | (Put) conv p where "conversations (sys_conversations y) c = Some conv" "cv_type conv = Group"
      "members.admin c u (sys_members y)" "\<not> is_closed c y" "active_participant c v y = None"
      "pt_conversation_id p = c" "pt_user_id p = v" "pt_status p = MS_Active"
      "\<forall>q. find_participant c v (sys_members y) = Some q \<longrightarrow> pt_role p = pt_role q"
      "sys_members y' = touch_user_conversation v c Group MS_Active now (put_participant p (sys_members y))"
      "sys_conversations y' = sys_conversations y"
proof (cases "y' = y")
  case False
  then have auth: "can_add_participant u c y = Inr ()"
    using assms(1) by (auto simp: add_participant_def split: sum.splits)
  then obtain conv where conv: "conversations (sys_conversations y) c = Some conv" "cv_type conv = Group"
      "members.admin c u (sys_members y)" "\<not> is_closed c y"
    using auth_admin [of u c y] by blast
  show thesis
  proof (cases "find_participant c v (sys_members y)")
    case None
    then show thesis using assms(1) auth
      by (intro Put [OF conv, of "new_participant c v Member now"])
        (auto simp: add_participant_def active_participant_def Let_def)
  next
    case (Some q)
    have "pt_conversation_id q = c \<and> pt_user_id q = v" using members.find_key [OF assms(2) Some] .
    then show thesis using assms(1) auth Some False
      by (intro Put [OF conv, of "q\<lparr> pt_status := MS_Active, pt_joined_at := now, pt_left_at := None,
            pt_membership_version := pt_membership_version q + 1 \<rparr>"])
        (auto simp: add_participant_def active_participant_def Let_def split: if_splits)
  qed
qed (rule Same)

lemma add_participant_inv:
  assumes "add_participant ev now u c v y = (res, y')" "service_inv y"
  shows "service_inv y'"
  using assms(1) inv_membersD [OF assms(2)]
proof (cases rule: add_participant_elim)
  case (Put conv p)
  have "u \<noteq> v" using Put(3,5) by (auto simp: members.admin_def active_participant_def)
  then have "members.governed c (put_participant p (sys_members y))"
    using members.governed_put_other_user [OF inv_membersD [OF assms(2)] Put(3), of p] Put(7) by simp
  then show ?thesis using inv_put_participant [OF assms(2) Put(1,2,6)] Put(10,11) by simp
qed (use assms(2) in simp)

text \<open>Leaving, by one's own wish or removed by oneself.\<close>

lemma exit_inv:
  assumes "service_inv y" "can_leave_conversation u c y = Inr ()" "find_participant c u (sys_members y) = Some p"
    and "st \<noteq> MS_Active"
  shows "members.governed c (put_participant (exit_participant st now p) (sys_members y))"
proof -
  from assms(2) obtain conv q where conv: "conversations (sys_conversations y) c = Some conv" "cv_type conv = Group"
    and "find_participant c u (sys_members y) = Some q" "pt_status q = MS_Active"
    and others: "members.admin c u (sys_members y) \<longrightarrow>
      (\<exists>q\<in>set (list_active_participants c (sys_members y)). pt_user_id q \<noteq> u \<and> pt_role q = Admin) \<or>
      (\<forall>q\<in>set (list_active_participants c (sys_members y)). pt_user_id q = u)"
    by (rule auth_leave)
  have key: "pt_conversation_id p = c" "pt_user_id p = u"
    using members.find_key [OF inv_membersD [OF assms(1)] assms(3)] by simp_all
  show ?thesis
    by (rule members.governed_after_exit [OF inv_membersD [OF assms(1)] inv_groupD [OF assms(1) conv]])
      (use key assms(4) others in simp_all)
qed

text \<open>A member that goes: who, with which status, and what becomes of the metadata.\<close>

definition closed_metadata :: "time_point \<Rightarrow> group_metadata_entity \<Rightarrow> group_metadata_entity" where
  "closed_metadata now m =
     m\<lparr> gm_status := GS_Closed, gm_updated_at := now, gm_metadata_version := gm_metadata_version m + 1 \<rparr>"

lemma close_if_empty_metadata:
  "group_metadata (sys_conversations (close_if_empty e t c y)) =
    (if list_active_participants c (sys_members y) \<noteq> [] then group_metadata (sys_conversations y)
     else case group_metadata (sys_conversations y) c of
         None \<Rightarrow> group_metadata (sys_conversations y)
       | Some m \<Rightarrow> (group_metadata (sys_conversations y))(gm_conversation_id m \<mapsto> closed_metadata t m))"
  by (simp add: close_if_empty_def closed_metadata_def find_group_metadata_def split: option.split)

lemma exit_elim:
  assumes "leave_conversation ev ev' now v c y = (res, y') \<or> remove_participant ev now u c v y = (res, y')"
    and "service_inv y"
  obtains (Same) "y' = y"
  | (Exit) conv p st where "conversations (sys_conversations y) c = Some conv" "cv_type conv = Group"
      "find_participant c v (sys_members y) = Some p" "pt_status p = MS_Active" "st \<in> {MS_Left, MS_Removed}"
      "pt_conversation_id p = c" "pt_user_id p = v"
      "members.governed c (put_participant (exit_participant st now p) (sys_members y))"
      "sys_members y' = touch_user_conversation v c Group st now (put_participant (exit_participant st now p) (sys_members y))"
      "conversations (sys_conversations y') = conversations (sys_conversations y)"
      "direct_pairs (sys_conversations y') = direct_pairs (sys_conversations y)"
      "group_metadata (sys_conversations y') = group_metadata (sys_conversations y) \<or>
        (\<exists>m. group_metadata (sys_conversations y) c = Some m \<and> list_active_participants c (sys_members y') = [] \<and>
          group_metadata (sys_conversations y') =
            (group_metadata (sys_conversations y))(gm_conversation_id m \<mapsto> closed_metadata now m))"
  using assms(1)
proof
  assume leave: "leave_conversation ev ev' now v c y = (res, y')"
  show thesis
  proof (cases "can_leave_conversation v c y")
    case (Inr x)
    then have auth: "can_leave_conversation v c y = Inr ()" by simp
    from auth obtain conv p where conv: "conversations (sys_conversations y) c = Some conv" "cv_type conv = Group"
        "find_participant c v (sys_members y) = Some p" "pt_status p = MS_Active"
      by (rule auth_leave)
    show thesis
      using leave auth conv(3) members.find_key [OF inv_membersD [OF assms(2)] conv(3)]
        exit_inv [OF assms(2) auth conv(3), of MS_Left now]
      by (intro Exit [OF conv, of MS_Left])
        (auto simp: leave_conversation_def Let_def close_if_empty_metadata split: option.splits)
  qed (use leave Same in \<open>simp add: leave_conversation_def\<close>)
next
  assume remove: "remove_participant ev now u c v y = (res, y')"
  show thesis
  proof (cases "can_remove_participant u c v y")
    case (Inr x)
    then have auth: "can_remove_participant u c v y = Inr ()" by simp
    obtain conv p where conv: "conversations (sys_conversations y) c = Some conv" "cv_type conv = Group"
        "find_participant c v (sys_members y) = Some p" "pt_status p = MS_Active"
        "members.governed c (put_participant (exit_participant MS_Removed now p) (sys_members y))"
      using auth
    proof (cases rule: auth_remove)
      case 1
      from 1(2) obtain conv p where "conversations (sys_conversations y) c = Some conv" "cv_type conv = Group"
          "find_participant c u (sys_members y) = Some p" "pt_status p = MS_Active"
        by (rule auth_leave)
      with 1 exit_inv [OF assms(2) 1(2)] show thesis by (intro that) auto
    next
      case (2 conv p)
      have "pt_user_id p = v" using members.find_key [OF inv_membersD [OF assms(2)] 2(5)] by simp
      with 2 members.governed_put_other_user [OF inv_membersD [OF assms(2)] 2(4)] show thesis
        by (intro that [of conv p]) auto
    qed
    show thesis
      using remove auth conv(3,5) members.find_key [OF inv_membersD [OF assms(2)] conv(3)]
      by (intro Exit [OF conv(1-4), of MS_Removed]) (auto simp: remove_participant_def)
  qed (use remove Same in \<open>simp add: remove_participant_def\<close>)
qed

lemma exit_keeps_inv:
  assumes "leave_conversation ev ev' now v c y = (res, y') \<or> remove_participant ev now u c v y = (res, y')"
    and "service_inv y"
  shows "service_inv y'"
  using assms
proof (cases rule: exit_elim)
  case (Exit conv p st)
  then show ?thesis
    by (intro inv_put_participant [OF assms(2) Exit(1,2), of "exit_participant st now p"]) auto
qed (use assms(2) in simp)

lemmas leave_conversation_inv = exit_keeps_inv [OF disjI1]
lemmas remove_participant_inv = exit_keeps_inv [OF disjI2]

lemma create_group_inv:
  assumes "create_group_conversation c ev now u title vs y = (res, y')" "service_inv y" "fresh_conversation c y"
  shows "service_inv y'"
proof (cases "title = [] \<or> length title > 256")
  case False
  let ?conv = "\<lparr> cv_conversation_id = c, cv_type = Group, cv_created_by_user_id = u, cv_created_at = now,
    cv_metadata_version = 1 \<rparr>"
  let ?base = "touch_user_conversation u c Group MS_Active now (put_participant (new_participant c u Admin now) (sys_members y))"
  have y': "sys_members y' = add_members c now vs {u} ?base"
      "conversations (sys_conversations y') = (conversations (sys_conversations y))(c \<mapsto> ?conv)"
      "direct_pairs (sys_conversations y') = direct_pairs (sys_conversations y)"
    using assms(1) False by (auto simp: create_group_conversation_def Let_def)
  have ok: "membership_ok (sys_members y')"
    using inv_membersD [OF assms(2)] by (simp add: y' add_members_ok)
  have "members.admin c u (sys_members y')" by (simp add: members.admin_def y' add_members_find)
  then have "members.governed c (sys_members y')" by (rule members.governed_admin)
  with ok y'(2,3) show ?thesis
    by (intro inv_new_conversation [OF assms(2,3), of y' ?conv]) (auto simp: y'(1) add_members_find)
qed (use assms in \<open>simp add: create_group_conversation_def\<close>)

lemma create_direct_inv:
  assumes "create_direct_conversation c ev now u v y = (res, y')" "service_inv y" "fresh_conversation c y"
  shows "service_inv y'"
proof (cases "y' = y")
  case False
  then obtain pair where pair: "make_direct_pair u v = Some pair" "direct_pairs (sys_conversations y) pair = None"
    using assms(1) inv_pairD [OF assms(2)]
    by (fastforce simp: create_direct_conversation_def find_direct_conversation_def find_conversation_by_id_def
        split: option.splits bind_splits)
  let ?conv = "\<lparr> cv_conversation_id = c, cv_type = Direct, cv_created_by_user_id = u, cv_created_at = now,
    cv_metadata_version = 1 \<rparr>"
  have y': "sys_members y' = touch_user_conversation v c Direct MS_Active now (touch_user_conversation u c Direct MS_Active now
        (put_participant (new_participant c v Member now) (put_participant (new_participant c u Member now) (sys_members y))))"
      "conversations (sys_conversations y') = (conversations (sys_conversations y))(c \<mapsto> ?conv)"
      "direct_pairs (sys_conversations y') = (direct_pairs (sys_conversations y))(pair \<mapsto> c)"
    using assms(1) pair by (auto simp: create_direct_conversation_def find_direct_conversation_def Let_def)
  have "{dp_user_a pair, dp_user_b pair} = {u, v}" "dp_user_a pair \<noteq> dp_user_b pair"
    using pair(1) by (auto simp: make_direct_pair_def split: if_splits)
  moreover have "find_participant c w (sys_members y) = None" for w
    using assms(3) by (simp add: fresh_conversation_def)
  ultimately have "roster pair c (sys_members y')" by (auto simp: roster_def y'(1))
  moreover have "membership_ok (sys_members y')" using inv_membersD [OF assms(2)] by (simp add: y'(1))
  ultimately show ?thesis using y' pair(2)
    by (intro inv_new_conversation [OF assms(2,3), of y' ?conv pair]) auto
qed (use assms in simp)

lemma update_metadata_inv:
  assumes "update_group_metadata ev now u c title y = (res, y')" "service_inv y"
  shows "service_inv y'"
  using assms(1)
  by (intro inv_only_metadata [OF assms(2)])
    (auto simp: update_group_metadata_def Let_def split: if_splits sum.splits option.splits)

lemma new_system_inv: "service_inv new_system"
  by (simp add: service_inv_def new_system_def clear_conversation_repo_def membership_ok_def clear_membership_repo_def)

lemma service_step_inv: "service_step y y' \<Longrightarrow> service_inv y \<Longrightarrow> service_inv y'"
  by (induction rule: service_step.induct)
    (auto intro: create_direct_inv create_group_inv add_participant_inv remove_participant_inv leave_conversation_inv
      update_metadata_inv inv_only_metadata simp: clear_outbox_events_def)

lemma service_reachable_inv: "service_step\<^sup>*\<^sup>* new_system y \<Longrightarrow> service_inv y"
  by (induction rule: rtranclp_induct) (auto intro: new_system_inv service_step_inv)

section \<open>Properties\<close>

text \<open>C26: whatever sequence of service calls runs, a group with active members has an
  active administrator, and the members of a direct conversation are the two users of
  its canonical pair, both active.\<close>

theorem conversations_governed:
  assumes "service_step\<^sup>*\<^sup>* new_system y"
    and "find_conversation_by_id c (sys_conversations y) = Some conv"
  shows "case cv_type conv of
      Group \<Rightarrow> list_active_participants c (sys_members y) = [] \<or>
        (\<exists>p\<in>set (list_active_participants c (sys_members y)). pt_role p = Admin)
    | Direct \<Rightarrow> \<exists>pair. find_direct_conversation pair (sys_conversations y) = Some c \<and>
        dp_user_a pair \<noteq> dp_user_b pair \<and>
        pt_user_id ` set (list_active_participants c (sys_members y)) = {dp_user_a pair, dp_user_b pair}"
proof -
  have inv: "service_inv y" using assms(1) by (rule service_reachable_inv)
  have conv: "conversations (sys_conversations y) c = Some conv"
    using assms(2) by (simp add: find_conversation_by_id_def)
  note active = members.active_iff [OF inv_membersD [OF inv]]
  show ?thesis
  proof (cases "cv_type conv")
    case Group
    from inv_groupD [OF inv conv Group] show ?thesis
      using members.find_key [OF inv_membersD [OF inv]]
      by (auto simp: Group members.governed_def members.admin_def active)
  next
    case Direct
    obtain pair where pair: "direct_pairs (sys_conversations y) pair = Some c" using inv_directD [OF inv conv Direct] .
    from inv_pairD [OF inv this] have ros: "roster pair c (sys_members y)" by blast
    have "u \<in> pt_user_id ` set (list_active_participants c (sys_members y)) \<longleftrightarrow> u \<in> {dp_user_a pair, dp_user_b pair}" for u
    proof
      assume "u \<in> pt_user_id ` set (list_active_participants c (sys_members y))"
      with ros show "u \<in> {dp_user_a pair, dp_user_b pair}" by (auto simp: active roster_def)
    next
      assume "u \<in> {dp_user_a pair, dp_user_b pair}"
      with ros obtain p where "find_participant c u (sys_members y) = Some p" "pt_status p = MS_Active"
        unfolding roster_def by metis
      with members.find_key [OF inv_membersD [OF inv]] show "u \<in> pt_user_id ` set (list_active_participants c (sys_members y))"
        by (force simp: active)
    qed
    with pair ros show ?thesis by (auto simp: Direct find_direct_conversation_def roster_def)
  qed
qed

definition sample_system :: conversation_system where
  "sample_system = snd (create_group_conversation [1] ''e'' 0 ''a'' ''t'' [''b''] new_system)"

lemma sample_system_step: "service_step new_system sample_system"
proof (rule svc_group)
  show "fresh_conversation [1] new_system"
    by (simp add: fresh_conversation_def new_system_def clear_conversation_repo_def clear_membership_repo_def
        find_conversation_by_id_def find_participant_def)
  show "create_group_conversation [1] ''e'' 0 ''a'' ''t'' [''b''] new_system
      = (fst (create_group_conversation [1] ''e'' 0 ''a'' ''t'' [''b''] new_system), sample_system)"
    by (simp add: sample_system_def)
qed

lemma sample_system_eval:
  "map_option cv_type (find_conversation_by_id [1] (sys_conversations sample_system)) = Some Group"
  "map pt_user_id (list_active_participants [1] (sys_members sample_system)) = [''a'', ''b'']"
  "map_option (\<lambda>p. (pt_role p, pt_status p)) (find_participant [1] ''a'' (sys_members sample_system)) = Some (Admin, MS_Active)"
  by code_simp+

theorem conversations_governed_witness:
  "\<exists>conv. find_conversation_by_id [1] (sys_conversations sample_system) = Some conv \<and> cv_type conv = Group \<and>
     (\<exists>p\<in>set (list_active_participants [1] (sys_members sample_system)). pt_role p = Admin)"
proof -
  have r: "service_step\<^sup>*\<^sup>* new_system sample_system" using sample_system_step by (rule r_into_rtranclp)
  obtain conv where c: "find_conversation_by_id [1] (sys_conversations sample_system) = Some conv" "cv_type conv = Group"
    using sample_system_eval(1) by (auto simp: map_option_case split: option.splits)
  have "list_active_participants [1] (sys_members sample_system) \<noteq> []" using sample_system_eval(2) by auto
  with conversations_governed [OF r c(1)] c show ?thesis by simp
qed

section \<open>Group metadata and the membership life cycle\<close>

lemma active_empty_cong:
  assumes "membership_ok r" "membership_ok r'" "\<And>u. find_participant c u r' = find_participant c u r"
  shows "list_active_participants c r' = [] \<longleftrightarrow> list_active_participants c r = []"
  using assms by (simp add: set_empty [symmetric] set_eq_iff members.active_iff del: set_empty)

lemma active_nonempty:
  assumes "membership_ok r" "find_participant c u r = Some p" "pt_status p = MS_Active"
  shows "list_active_participants c r \<noteq> []"
  using members.active_iff [OF assms(1), of p c] members.find_key [OF assms(1,2)] assms(2,3) by force

text \<open>Group metadata belongs to its conversation, and a closed group has no active member.\<close>

definition metadata_ok :: "conversation_system \<Rightarrow> bool" where
  "metadata_ok y \<longleftrightarrow> (\<forall>c m. group_metadata (sys_conversations y) c = Some m \<longrightarrow>
     gm_conversation_id m = c \<and> conversations (sys_conversations y) c \<noteq> None \<and>
     (gm_status m = GS_Closed \<longrightarrow> list_active_participants c (sys_members y) = []))"

text \<open>What one call does to memberships and to group metadata.\<close>

definition lifecycle_ok :: "conversation_system \<Rightarrow> conversation_system \<Rightarrow> bool" where
  "lifecycle_ok y y' \<longleftrightarrow>
     (\<forall>c u p. find_participant c u (sys_members y) = Some p \<longrightarrow>
        (\<exists>p'. find_participant c u (sys_members y') = Some p' \<and> pt_role p' = pt_role p \<and>
           is_valid_membership_transition (pt_status p) (pt_status p'))) \<and>
     (\<forall>c m. group_metadata (sys_conversations y) c = Some m \<longrightarrow>
        (\<exists>m'. group_metadata (sys_conversations y') c = Some m' \<and>
           is_valid_group_transition (gm_status m) (gm_status m')))"

lemma transitions_refl [simp]:
  "is_valid_membership_transition st st" "is_valid_group_transition gs gs"
  by (simp_all add: is_valid_membership_transition_def is_valid_group_transition_def)

lemma lifecycle_refl [simp]: "lifecycle_ok y y"
  by (simp add: lifecycle_ok_def)

lemma lifecycle_put:
  assumes "sys_members y' = touch_user_conversation w c' ty st t (put_participant p (sys_members y))"
    and "\<And>q. find_participant (pt_conversation_id p) (pt_user_id p) (sys_members y) = Some q \<Longrightarrow>
      pt_role p = pt_role q \<and> is_valid_membership_transition (pt_status q) (pt_status p)"
    and "\<And>c m. group_metadata (sys_conversations y) c = Some m \<Longrightarrow>
      \<exists>m'. group_metadata (sys_conversations y') c = Some m' \<and> is_valid_group_transition (gm_status m) (gm_status m')"
  shows "lifecycle_ok y y'"
  using assms(2,3) by (auto simp: lifecycle_ok_def assms(1))

lemma metadata_same:
  assumes "metadata_ok y" "membership_ok (sys_members y)" "membership_ok (sys_members y')"
    and "group_metadata (sys_conversations y') = group_metadata (sys_conversations y)"
    and "\<And>c. conversations (sys_conversations y) c \<noteq> None \<Longrightarrow> conversations (sys_conversations y') c \<noteq> None"
    and "\<And>c' u. group_metadata (sys_conversations y) c' \<noteq> None \<Longrightarrow> c' \<noteq> c \<Longrightarrow>
      find_participant c' u (sys_members y') = find_participant c' u (sys_members y)"
    and "\<And>m. group_metadata (sys_conversations y) c = Some m \<Longrightarrow> gm_status m \<noteq> GS_Closed"
  shows "metadata_ok y'"
  unfolding metadata_ok_def assms(4)
proof (intro allI impI)
  fix c' m assume m: "group_metadata (sys_conversations y) c' = Some m"
  then have old: "gm_conversation_id m = c'" "conversations (sys_conversations y) c' \<noteq> None"
      "gm_status m = GS_Closed \<longrightarrow> list_active_participants c' (sys_members y) = []"
    using assms(1) by (auto simp: metadata_ok_def)
  have "list_active_participants c' (sys_members y') = []" if closed: "gm_status m = GS_Closed"
  proof -
    have "c' \<noteq> c" using assms(7) m closed by auto
    then show ?thesis using active_empty_cong [OF assms(2,3) assms(6)] m old(3) closed by simp
  qed
  with old assms(5) show "gm_conversation_id m = c' \<and> conversations (sys_conversations y') c' \<noteq> None \<and>
      (gm_status m = GS_Closed \<longrightarrow> list_active_participants c' (sys_members y') = [])" by blast
qed

lemma add_participant_lifecycle:
  assumes "add_participant ev now u c v y = (res, y')" "service_inv y" "metadata_ok y"
  shows "lifecycle_ok y y' \<and> metadata_ok y'"
  using assms(1) inv_membersD [OF assms(2)]
proof (cases rule: add_participant_elim)
  case (Put conv p)
  have "is_valid_membership_transition (pt_status q) MS_Active" if "find_participant c v (sys_members y) = Some q" for q
    using that Put(5)
    by (cases "pt_status q") (auto simp: is_valid_membership_transition_def active_participant_def)
  then have "lifecycle_ok y y'" using Put by (intro lifecycle_put [OF Put(10)]) auto
  moreover have "metadata_ok y'"
    using Put inv_membersD [OF assms(2)] add_participant_inv [OF assms(1,2)]
    by (intro metadata_same [OF assms(3), of y' c])
      (auto simp: inv_membersD is_closed_def find_group_metadata_def split: option.splits)
  ultimately show ?thesis ..
qed (use assms(3) in simp)

lemma exit_lifecycle:
  assumes "leave_conversation ev ev' now v c y = (res, y') \<or> remove_participant ev now u c v y = (res, y')"
    and "service_inv y" "metadata_ok y"
  shows "lifecycle_ok y y' \<and> metadata_ok y'"
  using assms(1,2)
proof (cases rule: exit_elim)
  case (Exit conv p st)
  have open_group: "gm_status m = GS_Active" "gm_conversation_id m = c"
    if "group_metadata (sys_conversations y) c = Some m" for m
    using assms(3) that active_nonempty [OF inv_membersD [OF assms(2)] Exit(3,4)]
    by (auto simp: metadata_ok_def intro: group_status.exhaust)
  have ok': "membership_ok (sys_members y')" using exit_keeps_inv [OF assms(1,2)] by (rule inv_membersD)
  have "is_valid_membership_transition MS_Active st"
    using Exit(5) by (auto simp: is_valid_membership_transition_def)
  moreover have "\<exists>m'. group_metadata (sys_conversations y') c' = Some m' \<and> is_valid_group_transition (gm_status m) (gm_status m')"
    if "group_metadata (sys_conversations y) c' = Some m" for c' m
  proof (cases "group_metadata (sys_conversations y') c' = Some m")
    case False
    then have "group_metadata (sys_conversations y') c' = Some (closed_metadata now m)" "c' = c"
      using that Exit(12) open_group(2) by (auto split: if_splits)
    then show ?thesis using open_group(1) that
      by (auto simp: closed_metadata_def is_valid_group_transition_def)
  qed (intro exI [of _ m] conjI, simp_all)
  ultimately have "lifecycle_ok y y'" using Exit by (intro lifecycle_put [OF Exit(9)]) auto
  moreover have "metadata_ok y'"
    using Exit(12)
  proof
    assume "group_metadata (sys_conversations y') = group_metadata (sys_conversations y)"
    then show ?thesis
      using Exit inv_membersD [OF assms(2)] ok' open_group
      by (intro metadata_same [OF assms(3), of y' c]) auto
  next
    assume "\<exists>m. group_metadata (sys_conversations y) c = Some m \<and> list_active_participants c (sys_members y') = [] \<and>
          group_metadata (sys_conversations y') =
            (group_metadata (sys_conversations y))(gm_conversation_id m \<mapsto> closed_metadata now m)"
    then obtain m where m: "group_metadata (sys_conversations y) c = Some m" "list_active_participants c (sys_members y') = []"
        "group_metadata (sys_conversations y') = (group_metadata (sys_conversations y))(c \<mapsto> closed_metadata now m)"
      using open_group by auto
    let ?open = "y'\<lparr> sys_conversations := (sys_conversations y')\<lparr> group_metadata := group_metadata (sys_conversations y) \<rparr> \<rparr>"
    have "metadata_ok ?open"
      using Exit inv_membersD [OF assms(2)] ok' open_group
      by (intro metadata_same [OF assms(3), of ?open c]) auto
    then show ?thesis using m open_group by (auto simp: metadata_ok_def closed_metadata_def)
  qed
  ultimately show ?thesis ..
qed (use assms(3) in simp)

lemma create_direct_effect:
  assumes "create_direct_conversation c ev now u v y = (res, y')" "y' \<noteq> y"
  shows "group_metadata (sys_conversations y') = group_metadata (sys_conversations y) \<and>
    conversations (sys_conversations y') c \<noteq> None \<and>
    (\<forall>c'. c' \<noteq> c \<longrightarrow> conversations (sys_conversations y') c' = conversations (sys_conversations y) c') \<and>
    (\<forall>c' w. c' \<noteq> c \<longrightarrow> find_participant c' w (sys_members y') = find_participant c' w (sys_members y))"
  using assms by (auto simp: create_direct_conversation_def Let_def split: option.splits)

lemma create_group_effect:
  assumes "create_group_conversation c ev now u title vs y = (res, y')" "y' \<noteq> y"
  shows "(\<exists>m. group_metadata (sys_conversations y') = (group_metadata (sys_conversations y))(c \<mapsto> m) \<and>
      gm_conversation_id m = c \<and> gm_status m = GS_Active) \<and>
    conversations (sys_conversations y') c \<noteq> None \<and>
    (\<forall>c'. c' \<noteq> c \<longrightarrow> conversations (sys_conversations y') c' = conversations (sys_conversations y) c') \<and>
    (\<forall>c' w. c' \<noteq> c \<longrightarrow> find_participant c' w (sys_members y') = find_participant c' w (sys_members y))"
proof -
  let ?m = "\<lparr> gm_conversation_id = c, gm_title = title, gm_status = GS_Active, gm_created_at = now,
    gm_updated_at = now, gm_metadata_version = 1 \<rparr>"
  have "group_metadata (sys_conversations y') = (group_metadata (sys_conversations y))(c \<mapsto> ?m)"
    using assms by (auto simp: create_group_conversation_def Let_def split: if_splits)
  then have "\<exists>m. group_metadata (sys_conversations y') = (group_metadata (sys_conversations y))(c \<mapsto> m) \<and>
      gm_conversation_id m = c \<and> gm_status m = GS_Active"
    by (intro exI [of _ ?m]) simp
  then show ?thesis
    using assms by (auto simp: create_group_conversation_def Let_def add_members_find split: if_splits)
qed

lemma create_lifecycle:
  assumes "create_direct_conversation c ev now u v y = (res, y') \<or> create_group_conversation c ev now u title vs y = (res, y')"
    and "service_inv y" "metadata_ok y" "fresh_conversation c y"
  shows "lifecycle_ok y y' \<and> metadata_ok y'"
proof (cases "y' = y")
  case False
  have new: "find_participant c w (sys_members y) = None" "group_metadata (sys_conversations y) c = None" for w
    using assms(3,4) unfolding fresh_conversation_def metadata_ok_def find_conversation_by_id_def
    by (metis not_Some_eq)+
  have y': "group_metadata (sys_conversations y') = group_metadata (sys_conversations y) \<or>
        (\<exists>m. group_metadata (sys_conversations y') = (group_metadata (sys_conversations y))(c \<mapsto> m) \<and>
          gm_conversation_id m = c \<and> gm_status m = GS_Active)"
      "conversations (sys_conversations y') c \<noteq> None"
      "\<And>c'. c' \<noteq> c \<Longrightarrow> conversations (sys_conversations y') c' = conversations (sys_conversations y) c'"
      "\<And>c' w. c' \<noteq> c \<Longrightarrow> find_participant c' w (sys_members y') = find_participant c' w (sys_members y)"
    using assms(1) create_direct_effect [OF _ False] create_group_effect [OF _ False] by blast+
  have "service_inv y'" using assms create_direct_inv create_group_inv by blast
  then have ok': "membership_ok (sys_members y')" by (rule inv_membersD)
  have "lifecycle_ok y y'"
    unfolding lifecycle_ok_def
  proof (intro conjI allI impI)
    fix c' w p assume "find_participant c' w (sys_members y) = Some p"
    with new y'(4) show "\<exists>p'. find_participant c' w (sys_members y') = Some p' \<and> pt_role p' = pt_role p \<and>
        is_valid_membership_transition (pt_status p) (pt_status p')" by (cases "c' = c") auto
  next
    fix c' m assume "group_metadata (sys_conversations y) c' = Some m"
    with new y'(1) show "\<exists>m'. group_metadata (sys_conversations y') c' = Some m' \<and>
        is_valid_group_transition (gm_status m) (gm_status m')" by (cases "c' = c") auto
  qed
  moreover have "metadata_ok y'"
  proof -
    let ?old = "y'\<lparr> sys_conversations := (sys_conversations y')\<lparr> group_metadata := group_metadata (sys_conversations y) \<rparr> \<rparr>"
    have "metadata_ok ?old"
    proof (rule metadata_same [OF assms(3) inv_membersD [OF assms(2)], of _ c])
      fix c' show "conversations (sys_conversations ?old) c' \<noteq> None" if "conversations (sys_conversations y) c' \<noteq> None"
        using that y'(2,3) by (cases "c' = c") auto
    qed (use ok' new y'(4) in auto)
    then show ?thesis using y'(1,2) by (auto simp: metadata_ok_def split: if_splits)
  qed
  ultimately show ?thesis ..
qed (use assms(3) in simp)

lemma update_lifecycle:
  assumes "update_group_metadata ev now u c title y = (res, y')" "metadata_ok y"
  shows "lifecycle_ok y y' \<and> metadata_ok y'"
proof (cases "y' = y")
  case False
  then obtain m where m: "group_metadata (sys_conversations y) c = Some m" "sys_members y' = sys_members y"
      "sys_conversations y' = save_group_metadata (m\<lparr> gm_title := title, gm_updated_at := now,
         gm_metadata_version := gm_metadata_version m + 1 \<rparr>) (sys_conversations y)"
    using assms(1)
    by (auto simp: update_group_metadata_def Let_def find_group_metadata_def split: if_splits sum.splits option.splits)
  moreover have "gm_conversation_id m = c" using assms(2) m(1) by (auto simp: metadata_ok_def)
  ultimately show ?thesis using assms(2) by (auto simp: lifecycle_ok_def metadata_ok_def)
qed (use assms(2) in simp)

lemma service_step_lifecycle:
  "service_step y y' \<Longrightarrow> service_inv y \<Longrightarrow> metadata_ok y \<Longrightarrow> lifecycle_ok y y' \<and> metadata_ok y'"
proof (induction rule: service_step.induct)
  case (svc_clear y)
  then show ?case by (simp add: clear_outbox_events_def lifecycle_ok_def metadata_ok_def)
qed (rule create_lifecycle [OF disjI1] create_lifecycle [OF disjI2] add_participant_lifecycle
    exit_lifecycle [OF disjI1] exit_lifecycle [OF disjI2] update_lifecycle; assumption)+

lemma service_reachable_metadata:
  "service_step\<^sup>*\<^sup>* new_system y \<Longrightarrow> metadata_ok y"
proof (induction rule: rtranclp_induct)
  case base
  show ?case by (simp add: metadata_ok_def new_system_def clear_conversation_repo_def)
next
  case (step y y')
  then show ?case using service_step_lifecycle service_reachable_inv by blast
qed

text \<open>C27: a call moves memberships and groups only along the life cycle of the domain
  rules.  No membership disappears, no role changes, a member goes from active to left
  or removed and may only come back to active, a closed group stays closed and has no
  active member.\<close>

theorem service_respects_lifecycle:
  assumes "service_step\<^sup>*\<^sup>* new_system y" "service_step y y'"
  shows "(\<forall>p. find_participant c u (sys_members y) = Some p \<longrightarrow>
        (\<exists>p'. find_participant c u (sys_members y') = Some p' \<and> pt_role p' = pt_role p \<and>
           is_valid_membership_transition (pt_status p) (pt_status p'))) \<and>
     (\<forall>m. find_group_metadata c (sys_conversations y) = Some m \<longrightarrow>
        (\<exists>m'. find_group_metadata c (sys_conversations y') = Some m' \<and>
           is_valid_group_transition (gm_status m) (gm_status m') \<and>
           (gm_status m' = GS_Closed \<longrightarrow> list_active_participants c (sys_members y') = [])))"
proof -
  have step: "lifecycle_ok y y'" "metadata_ok y'"
    using service_step_lifecycle [OF assms(2)] service_reachable_inv [OF assms(1)]
      service_reachable_metadata [OF assms(1)] by blast+
  have "\<exists>m'. group_metadata (sys_conversations y') c = Some m' \<and> is_valid_group_transition (gm_status m) (gm_status m') \<and>
      (gm_status m' = GS_Closed \<longrightarrow> list_active_participants c (sys_members y') = [])"
    if "group_metadata (sys_conversations y) c = Some m" for m
  proof -
    from step(1) that obtain m' where "group_metadata (sys_conversations y') c = Some m'"
        "is_valid_group_transition (gm_status m) (gm_status m')"
      unfolding lifecycle_ok_def by blast
    with step(2) show ?thesis unfolding metadata_ok_def by blast
  qed
  with step(1) show ?thesis by (simp add: lifecycle_ok_def find_group_metadata_def)
qed

definition sample_left :: conversation_system where
  "sample_left = snd (leave_conversation ''f'' ''g'' 5 ''b'' [1] sample_system)"

lemma sample_left_step: "service_step sample_system sample_left"
  by (rule svc_leave [of "''f''" "''g''" 5 "''b''" "[1]" _ "fst (leave_conversation ''f'' ''g'' 5 ''b'' [1] sample_system)"])
    (simp add: sample_left_def)

theorem service_respects_lifecycle_witness:
  "\<exists>p p'. find_participant [1] ''a'' (sys_members sample_system) = Some p \<and>
     find_participant [1] ''a'' (sys_members sample_left) = Some p' \<and> pt_role p' = pt_role p"
proof -
  obtain p where p: "find_participant [1] ''a'' (sys_members sample_system) = Some p"
    using sample_system_eval(3) by (auto simp: map_option_case split: option.splits)
  have "service_step\<^sup>*\<^sup>* new_system sample_system" using sample_system_step by (rule r_into_rtranclp)
  from service_respects_lifecycle [OF this sample_left_step, of "[1]" "''a''"] p show ?thesis by auto
qed

text \<open>C28: only insiders change a conversation.  A caller who is not an active member gets an
  error from every operation on it, and one who is no administrator from adding,
  renaming and removing others; each of these errors leaves the whole state as it was.\<close>

theorem outsiders_change_nothing:
  assumes "\<forall>p. active_participant c u y = Some p \<longrightarrow> pt_role p \<noteq> Admin"
  shows "(\<exists>e. add_participant ev now u c v y = (Inl e, y)) \<and>
    (\<exists>e. update_group_metadata ev now u c title y = (Inl e, y)) \<and>
    (v \<noteq> u \<or> active_participant c u y = None \<longrightarrow> (\<exists>e. remove_participant ev now u c v y = (Inl e, y))) \<and>
    (active_participant c u y = None \<longrightarrow>
      (\<exists>e. leave_conversation ev ev' now u c y = (Inl e, y)) \<and> (\<exists>e. get_conversation u c y = Inl e) \<and>
      (\<exists>e. can_send_message u c y = Inl e))"
proof (intro conjI impI)
  have no_admin: "can_add_participant u c y \<noteq> Inr ()" "can_update_metadata u c y \<noteq> Inr ()"
    using assms auth_admin(2) [of u c y] by (auto simp: members.admin_def active_participant_iff)
  from no_admin(1) show "\<exists>e. add_participant ev now u c v y = (Inl e, y)"
    by (cases "can_add_participant u c y") (auto simp: add_participant_def)
  from no_admin(2) show "\<exists>e. update_group_metadata ev now u c title y = (Inl e, y)"
    by (cases "can_update_metadata u c y") (auto simp: update_group_metadata_def)
  show "\<exists>e. remove_participant ev now u c v y = (Inl e, y)" if "v \<noteq> u \<or> active_participant c u y = None"
  proof -
    have "can_remove_participant u c v y \<noteq> Inr ()"
      using assms that
      by (auto simp: can_remove_participant_def can_leave_conversation_def split: option.splits if_splits)
    then show ?thesis by (cases "can_remove_participant u c v y") (auto simp: remove_participant_def)
  qed
  show "\<exists>e. leave_conversation ev ev' now u c y = (Inl e, y)" if "active_participant c u y = None"
    using that by (auto simp: leave_conversation_def can_leave_conversation_def split: option.splits)
  show "\<exists>e. get_conversation u c y = Inl e" "\<exists>e. can_send_message u c y = Inl e" if "active_participant c u y = None"
    using that by (auto simp: get_conversation_def can_view_conversation_def can_send_message_def split: option.splits)
qed

theorem outsiders_change_nothing_witness:
  "\<exists>e. leave_conversation ''f'' ''g'' 5 ''x'' [1] sample_system = (Inl e, sample_system)"
proof -
  have none: "active_participant [1] ''x'' sample_system = None" by code_simp
  then have "\<forall>p. active_participant [1] ''x'' sample_system = Some p \<longrightarrow> pt_role p \<noteq> Admin" by simp
  from outsiders_change_nothing [OF this] none show ?thesis by blast
qed

text \<open>C29: direct conversations are unique.  Once two users have one, asking for it again,
  in either order of the users, answers with the same conversation and changes nothing.\<close>

theorem direct_conversation_unique:
  assumes "create_direct_conversation c ev now u v y = (Inr conv, y')"
    and "(u', v') = (u, v) \<or> (u', v') = (v, u)"
  shows "create_direct_conversation c' ev' now' u' v' y' = (Inr conv, y')"
proof -
  obtain pair where pair: "make_direct_pair u v = Some pair"
    using assms(1) by (auto simp: create_direct_conversation_def split: option.splits)
  then have pair': "make_direct_pair u' v' = Some pair"
    using assms(2) by (auto simp: make_direct_pair_def split: if_splits)
  have "Option.bind (find_direct_conversation pair (sys_conversations y'))
      (\<lambda>i. find_conversation_by_id i (sys_conversations y')) = Some conv"
    using assms(1) pair
    by (auto simp: create_direct_conversation_def find_direct_conversation_def find_conversation_by_id_def Let_def
        split: option.splits)
  then show ?thesis by (simp add: create_direct_conversation_def pair')
qed

theorem direct_conversation_unique_witness:
  "\<exists>conv y'. create_direct_conversation [2] ''e'' 0 ''a'' ''b'' new_system = (Inr conv, y') \<and>
     create_direct_conversation [3] ''f'' 1 ''b'' ''a'' y' = (Inr conv, y')"
proof -
  have "\<exists>conv y'. create_direct_conversation [2] ''e'' 0 ''a'' ''b'' new_system = (Inr conv, y')"
    by (simp add: create_direct_conversation_def make_direct_pair_def new_system_def clear_conversation_repo_def
        find_direct_conversation_def Let_def)
  then show ?thesis using direct_conversation_unique by blast
qed


text \<open>A group of two administrators, one of whom was removed.\<close>

definition two_admins :: conversation_system where
  "two_admins = on_members (repo_update_participant
     \<lparr> pt_conversation_id = [1], pt_user_id = ''b'', pt_role = Admin, pt_status = MS_Removed, pt_joined_at = 0,
       pt_left_at = Some 5, pt_membership_version = 2 \<rparr>) sample_system"


end
