(* ===== verification/Circuit_Breaker.thy ===== *)
theory Circuit_Breaker
  imports Prelude
begin

text \<open>
  \<open>CircuitBreaker\<close> and \<open>CircuitBreakerRegistry\<close> of the gateway
  (\<open>src/src/gateway/http/resilience/circuit_breaker.cpp\<close>).  Time points are the
  nanosecond ticks of the steady clock; the reading of a call is a parameter.  The
  mutex of a breaker makes every operation atomic.
\<close>

section \<open>Model\<close>

datatype grpc_status =
    OK | CANCELLED | UNKNOWN | INVALID_ARGUMENT | DEADLINE_EXCEEDED | NOT_FOUND | ALREADY_EXISTS
  | PERMISSION_DENIED | RESOURCE_EXHAUSTED | FAILED_PRECONDITION | ABORTED | OUT_OF_RANGE
  | UNIMPLEMENTED | INTERNAL | UNAVAILABLE | DATA_LOSS | UNAUTHENTICATED

datatype circuit_state = Closed | Open | HalfOpen

definition circuit_state_to_string :: "circuit_state \<Rightarrow> string" where
  "circuit_state_to_string st =
    (case st of Closed \<Rightarrow> ''CLOSED'' | Open \<Rightarrow> ''OPEN'' | HalfOpen \<Rightarrow> ''HALF_OPEN'')"

record breaker_config =
  cb_enabled :: bool
  failure_threshold :: u32
  recovery_timeout_ms :: u32
  half_open_probe_count :: u32

record breaker =
  cb_state :: circuit_state
  consecutive_failures :: u32
  half_open_probes_in_flight :: u32
  open_time :: time_point

definition new_breaker :: breaker where
  "new_breaker = \<lparr> cb_state = Closed, consecutive_failures = 0, half_open_probes_in_flight = 0, open_time = 0 \<rparr>"

definition is_transient_failure :: "grpc_status \<Rightarrow> bool" where
  "is_transient_failure status = (status = UNAVAILABLE \<or> status = DEADLINE_EXCEEDED)"

text \<open>\<open>duration_cast\<close> to milliseconds truncates toward zero.\<close>

definition to_ms :: "duration \<Rightarrow> int" where
  "to_ms d = (if d \<ge> 0 then d div 1000000 else - ((- d) div 1000000))"

definition recovered :: "breaker_config \<Rightarrow> time_point \<Rightarrow> breaker \<Rightarrow> bool" where
  "recovered cfg now b = (to_ms (now - open_time b) \<ge> uint (recovery_timeout_ms cfg))"

definition allow_request :: "breaker_config \<Rightarrow> time_point \<Rightarrow> breaker \<Rightarrow> bool \<times> breaker" where
  "allow_request cfg now b =
    (if \<not> cb_enabled cfg then (True, b)
     else if cb_state b = Closed then (True, b)
     else if cb_state b = Open then
       (if recovered cfg now b
        then (True, b\<lparr> cb_state := HalfOpen, half_open_probes_in_flight := 1 \<rparr>)
        else (False, b))
     else if half_open_probes_in_flight b < half_open_probe_count cfg
     then (True, b\<lparr> half_open_probes_in_flight := half_open_probes_in_flight b + 1 \<rparr>)
     else (False, b))"

definition record_success :: "breaker_config \<Rightarrow> breaker \<Rightarrow> breaker" where
  "record_success cfg b =
    (if \<not> cb_enabled cfg then b
     else case cb_state b of
         HalfOpen \<Rightarrow> b\<lparr> cb_state := Closed, consecutive_failures := 0, half_open_probes_in_flight := 0 \<rparr>
       | Closed \<Rightarrow> b\<lparr> consecutive_failures := 0 \<rparr>
       | Open \<Rightarrow> b)"

definition record_failure :: "breaker_config \<Rightarrow> time_point \<Rightarrow> bool \<Rightarrow> breaker \<Rightarrow> breaker" where
  "record_failure cfg now is_transient b =
    (if \<not> is_transient then b
     else if \<not> cb_enabled cfg then b
     else case cb_state b of
         HalfOpen \<Rightarrow> b\<lparr> cb_state := Open, open_time := now, half_open_probes_in_flight := 0 \<rparr>
       | Closed \<Rightarrow>
          (let b1 = b\<lparr> consecutive_failures := consecutive_failures b + 1 \<rparr> in
           if consecutive_failures b1 \<ge> failure_threshold cfg
           then b1\<lparr> cb_state := Open, open_time := now, half_open_probes_in_flight := 0 \<rparr>
           else b1)
       | Open \<Rightarrow> b)"

definition record_status :: "breaker_config \<Rightarrow> time_point \<Rightarrow> grpc_status \<Rightarrow> breaker \<Rightarrow> breaker" where
  "record_status cfg now status b =
    (if status = OK then record_success cfg b
     else record_failure cfg now (is_transient_failure status) b)"

definition breaker_state :: "breaker_config \<Rightarrow> time_point \<Rightarrow> breaker \<Rightarrow> circuit_state" where
  "breaker_state cfg now b = (if cb_state b = Open \<and> recovered cfg now b then HalfOpen else cb_state b)"

text \<open>The subtraction is done in 64 bits, the result is cut to 32.\<close>

definition remaining_recovery_time_sec :: "breaker_config \<Rightarrow> time_point \<Rightarrow> breaker \<Rightarrow> u32" where
  "remaining_recovery_time_sec cfg now b =
    (if cb_state b \<noteq> Open then 0
     else if recovered cfg now b then 0
     else
      (let remaining_ms = (word_of_int (uint (recovery_timeout_ms cfg) - to_ms (now - open_time b)) :: u64)
       in ucast ((remaining_ms + 999) div 1000)))"

definition reset_breaker :: "breaker \<Rightarrow> breaker" where
  "reset_breaker b = b\<lparr> cb_state := Closed, consecutive_failures := 0, half_open_probes_in_flight := 0 \<rparr>"

text \<open>The \<open>Retry-After\<close> header of a rejection.\<close>

definition retry_after_sec :: "u32 \<Rightarrow> u32" where
  "retry_after_sec s = max 1 s"

section \<open>Registry\<close>

type_synonym breaker_registry = "string \<rightharpoonup> breaker"

definition get_or_create :: "string \<Rightarrow> breaker_registry \<Rightarrow> breaker \<times> breaker_registry" where
  "get_or_create name r = (case r name of
     Some b \<Rightarrow> (b, r) | None \<Rightarrow> (new_breaker, r(name \<mapsto> new_breaker)))"

definition get_breaker :: "string \<Rightarrow> breaker_registry \<Rightarrow> breaker option" where
  "get_breaker name r = r name"

definition new_breaker_registry :: breaker_registry where
  "new_breaker_registry =
     snd (get_or_create ''audit'' (snd (get_or_create ''files''
       (snd (get_or_create ''messaging'' (snd (get_or_create ''auth'' (\<lambda>_. None))))))))"

definition reset_all :: "breaker_registry \<Rightarrow> breaker_registry" where
  "reset_all r = (\<lambda>name. map_option reset_breaker (r name))"

section \<open>Runs\<close>

datatype breaker_event = Request | Outcome grpc_status

text \<open>A run is a list of calls with their clock readings; the answers of the requests
  are collected.\<close>

fun run_breaker :: "breaker_config \<Rightarrow> (time_point \<times> breaker_event) list \<Rightarrow> breaker \<Rightarrow> bool list \<times> breaker" where
  "run_breaker cfg [] b = ([], b)"
| "run_breaker cfg ((now, Request) # es) b =
    (case allow_request cfg now b of (ok, b1) \<Rightarrow>
       (case run_breaker cfg es b1 of (oks, b2) \<Rightarrow> (ok # oks, b2)))"
| "run_breaker cfg ((now, Outcome s) # es) b = run_breaker cfg es (record_status cfg now s b)"

section \<open>Counting failures\<close>

text \<open>The reference: the number of transient failures since the last success.\<close>

fun streak_from :: "nat \<Rightarrow> grpc_status list \<Rightarrow> nat" where
  "streak_from n [] = n"
| "streak_from n (s # ss) =
    streak_from (if s = OK then 0 else if is_transient_failure s then Suc n else n) ss"

text \<open>Whether the streak ever reaches the threshold; the first failure counts even when
  the threshold is zero.\<close>

fun trips :: "nat \<Rightarrow> nat \<Rightarrow> grpc_status list \<Rightarrow> bool" where
  "trips t n [] = False"
| "trips t n (s # ss) =
    (let n' = (if s = OK then 0 else if is_transient_failure s then Suc n else n)
     in (is_transient_failure s \<and> n' \<ge> t) \<or> trips t n' ss)"

definition outcomes :: "(time_point \<times> breaker_event) list \<Rightarrow> grpc_status list" where
  "outcomes es = concat (map (\<lambda>(t, e). case e of Request \<Rightarrow> [] | Outcome s \<Rightarrow> [s]) es)"

lemma outcomes_simps [simp]:
  "outcomes [] = []" "outcomes ((t, Request) # es) = outcomes es" "outcomes ((t, Outcome s) # es) = s # outcomes es"
  by (simp_all add: outcomes_def)

lemma u32_increment: "unat (f :: u32) < unat (t :: u32) \<Longrightarrow> unat (f + 1) = Suc (unat f)"
  by (rule unat_inc)

lemma transient_not_ok [simp]: "\<not> is_transient_failure OK"
  by (simp add: is_transient_failure_def)

text \<open>While the breaker is closed the counter is the streak, without wrapping around.\<close>

lemma closed_request: "cb_state b = Closed \<Longrightarrow> allow_request cfg now b = (True, b)"
  by (simp add: allow_request_def)

lemma closed_run:
  assumes "cb_enabled cfg" "cb_state b = Closed"
    and "\<not> trips (unat (failure_threshold cfg)) (unat (consecutive_failures b)) (outcomes es)"
  shows "cb_state (snd (run_breaker cfg es b)) = Closed \<and> False \<notin> set (fst (run_breaker cfg es b)) \<and>
    unat (consecutive_failures (snd (run_breaker cfg es b))) = streak_from (unat (consecutive_failures b)) (outcomes es)"
  using assms(2,3)
proof (induction es arbitrary: b)
  case (Cons e es)
  obtain now ev where e: "e = (now, ev)" by (cases e)
  show ?case
  proof (cases ev)
    case Request
    with Cons.IH [of b] Cons.prems show ?thesis by (simp add: e Request closed_request case_prod_unfold)
  next
    case (Outcome s)
    let ?n = "if s = OK then 0 else if is_transient_failure s then Suc (unat (consecutive_failures b))
      else unat (consecutive_failures b)"
    have no: "\<not> trips (unat (failure_threshold cfg)) ?n (outcomes es)"
        "is_transient_failure s \<Longrightarrow> Suc (unat (consecutive_failures b)) < unat (failure_threshold cfg)"
      using Cons.prems(2) by (auto simp: e Outcome Let_def is_transient_failure_def)
    have "cb_state (record_status cfg now s b) = Closed \<and> unat (consecutive_failures (record_status cfg now s b)) = ?n"
    proof (cases "is_transient_failure s")
      case True
      then have inc: "unat (consecutive_failures b + 1) = Suc (unat (consecutive_failures b))"
        using no(2) by (intro u32_increment [of _ "failure_threshold cfg"]) simp
      with no(2) True have "\<not> failure_threshold cfg \<le> consecutive_failures b + 1" by (simp add: word_le_nat_alt)
      with True inc assms(1) Cons.prems(1) show ?thesis
        by (auto simp: record_status_def record_failure_def Let_def)
    next
      case False
      with assms(1) Cons.prems(1) show ?thesis
        by (auto simp: record_status_def record_success_def record_failure_def)
    qed
    with Cons.IH [of "record_status cfg now s b"] no(1) show ?thesis by (simp add: e Outcome)
  qed
qed simp

text \<open>An open breaker is left only by a request after the recovery time.\<close>

lemma open_outcome: "cb_state b = Open \<Longrightarrow> record_status cfg now s b = b"
  by (simp add: record_status_def record_success_def record_failure_def)

lemma open_run:
  assumes "cb_enabled cfg" "cb_state b = Open" "\<forall>(t, e)\<in>set es. e = Request \<longrightarrow> \<not> recovered cfg t b"
  shows "snd (run_breaker cfg es b) = b \<and> True \<notin> set (fst (run_breaker cfg es b))"
  using assms
  by (induction cfg es b rule: run_breaker.induct) (auto simp: allow_request_def open_outcome split: prod.splits)

text \<open>The failure that trips a closed breaker.\<close>

lemma trip_split:
  assumes "trips t n (outcomes es)"
  obtains es1 now s es2 where "es = es1 @ (now, Outcome s) # es2" "\<not> trips t n (outcomes es1)"
    "is_transient_failure s" "Suc (streak_from n (outcomes es1)) \<ge> t"
  using assms
proof (induction es arbitrary: n thesis)
  case (Cons e es)
  obtain now ev where e: "e = (now, ev)" by (cases e)
  show ?case
  proof (cases ev)
    case Request
    with Cons.prems(2) e have "trips t n (outcomes es)" by simp
    then obtain es1 now' s es2 where "es = es1 @ (now', Outcome s) # es2" "\<not> trips t n (outcomes es1)"
        "is_transient_failure s" "Suc (streak_from n (outcomes es1)) \<ge> t"
      using Cons.IH by blast
    with e Request show ?thesis by (intro Cons.prems(1) [of "e # es1" now' s es2]) auto
  next
    case (Outcome s)
    let ?n = "if s = OK then 0 else if is_transient_failure s then Suc n else n"
    show ?thesis
    proof (cases "is_transient_failure s \<and> ?n \<ge> t")
      case True
      then have "s \<noteq> OK" by auto
      with True e Outcome show ?thesis by (intro Cons.prems(1) [of "[]" now s es]) auto
    next
      case False
      with Cons.prems(2) e Outcome have "trips t ?n (outcomes es)" by (auto simp: Let_def)
      then obtain es1 now' s' es2 where "es = es1 @ (now', Outcome s') # es2" "\<not> trips t ?n (outcomes es1)"
          "is_transient_failure s'" "Suc (streak_from ?n (outcomes es1)) \<ge> t"
        using Cons.IH by blast
      with e Outcome False show ?thesis by (intro Cons.prems(1) [of "e # es1" now' s' es2]) (auto simp: Let_def)
    qed
  qed
qed simp

lemma run_breaker_append:
  "run_breaker cfg (es @ es') b =
    (case run_breaker cfg es b of (oks, b1) \<Rightarrow> (case run_breaker cfg es' b1 of (oks', b2) \<Rightarrow> (oks @ oks', b2)))"
  by (induction cfg es b rule: run_breaker.induct) (auto split: prod.splits)

lemma streak_below:
  "\<not> trips t n ss \<Longrightarrow> n = 0 \<or> n < t \<Longrightarrow> streak_from n ss = 0 \<or> streak_from n ss < t"
proof (induction ss arbitrary: n)
  case (Cons s ss)
  let ?n = "if s = OK then 0 else if is_transient_failure s then Suc n else n"
  have "\<not> trips t ?n ss" "?n = 0 \<or> ?n < t"
    using Cons.prems by (auto simp: Let_def not_le is_transient_failure_def split: if_splits)
  from Cons.IH [OF this] show ?case by simp
qed simp

lemma threshold_reached:
  assumes "unat (t :: u32) \<le> Suc n" "unat (f :: u32) = n" "n = 0 \<or> n < unat t"
  shows "t \<le> f + 1"
proof -
  have "unat (f + 1) = Suc n"
  proof (cases "n = 0")
    case True
    with assms(2) have "f = 0" by (simp add: unat_eq_zero)
    with True show ?thesis by simp
  qed (use assms u32_increment in auto)
  with assms(1) show ?thesis by (simp add: word_le_nat_alt)
qed

lemma uint_lt2p_32: "uint (w :: u32) < 2 ^ 32"
  using uint_lt2p [of w] by simp

lemma uint_of_int_64: "0 \<le> y \<Longrightarrow> y < 2 ^ 64 \<Longrightarrow> uint (word_of_int y :: u64) = y"
  by (simp add: uint_word_of_int_eq take_bit_int_eq_self)

text \<open>The 64-bit arithmetic of the remaining time is exact, and so is the cut to 32 bits.\<close>

lemma remaining_value:
  assumes "0 \<le> (R :: int)" "e < R" "0 \<le> e" "R < 2 ^ 32"
  shows "uint (ucast (((word_of_int (R - e) :: u64) + 999) div 1000) :: u32) = (R - e + 999) div 1000"
proof -
  have "(word_of_int (R - e) :: u64) + 999 = word_of_int (R - e + 999)" by simp
  moreover have "uint (word_of_int (R - e + 999) :: u64) = R - e + 999"
    by (rule uint_of_int_64) (use assms in auto)
  ultimately have "uint (((word_of_int (R - e) :: u64) + 999) div 1000) = (R - e + 999) div 1000"
    by (simp only: uint_div_distrib) simp
  moreover have "(R - e + 999) div 1000 < 2 ^ 32" "0 \<le> (R - e + 999) div 1000" using assms by auto
  ultimately show ?thesis by (simp add: unsigned_ucast_eq take_bit_int_eq_self)
qed

section \<open>Properties\<close>

text \<open>C31: the breaker trips exactly at the threshold.  Over any sequence of requests and
  outcomes within one recovery window, a breaker that starts closed and fresh stays
  closed, admitting every request, if and only if no run of transient failures
  uninterrupted by a success reaches the threshold; otherwise it ends open.\<close>

theorem breaker_trips_at_threshold:
  assumes "cb_enabled cfg"
    and "\<forall>(t, e)\<in>set es. \<forall>(t', e')\<in>set es. to_ms (t - t') < uint (recovery_timeout_ms cfg)"
  shows "cb_state (snd (run_breaker cfg es new_breaker)) =
    (if trips (unat (failure_threshold cfg)) 0 (outcomes es) then Open else Closed)"
proof (cases "trips (unat (failure_threshold cfg)) 0 (outcomes es)")
  case False
  then show ?thesis using closed_run [OF assms(1), of new_breaker es] by (simp add: new_breaker_def)
next
  case True
  then obtain es1 now s es2 where split: "es = es1 @ (now, Outcome s) # es2"
      "\<not> trips (unat (failure_threshold cfg)) 0 (outcomes es1)" "is_transient_failure s"
      "Suc (streak_from 0 (outcomes es1)) \<ge> unat (failure_threshold cfg)"
    by (rule trip_split)
  let ?b = "snd (run_breaker cfg es1 new_breaker)" and ?b' = "record_status cfg now s (snd (run_breaker cfg es1 new_breaker))"
  have b: "cb_state ?b = Closed" "unat (consecutive_failures ?b) = streak_from 0 (outcomes es1)"
    using closed_run [OF assms(1), of new_breaker es1] split(2) by (simp_all add: new_breaker_def)
  have bound: "failure_threshold cfg \<le> consecutive_failures ?b + 1"
    using threshold_reached [OF split(4) b(2)] streak_below [OF split(2)] by simp
  have "cb_state ?b' = Open \<and> open_time ?b' = now"
    using split(3) b(1) bound assms(1) by (auto simp: record_status_def record_failure_def Let_def)
  moreover have "\<not> recovered cfg t ?b'" if "(t, e) \<in> set es2" "open_time ?b' = now" for t e
  proof -
    have "to_ms (t - now) < uint (recovery_timeout_ms cfg)" using assms(2) that(1) split(1) by fastforce
    with that(2) show ?thesis by (simp add: recovered_def)
  qed
  ultimately have "snd (run_breaker cfg es2 ?b') = ?b'"
    using open_run [OF assms(1), of ?b' es2] by blast
  then show ?thesis
    using True \<open>cb_state ?b' = Open \<and> open_time ?b' = now\<close> by (simp add: split(1) run_breaker_append case_prod_unfold)
qed

definition sample_breaker_config :: breaker_config where
  "sample_breaker_config = \<lparr> cb_enabled = True, failure_threshold = 2, recovery_timeout_ms = 5000, half_open_probe_count = 1 \<rparr>"

definition sample_events :: "(time_point \<times> breaker_event) list" where
  "sample_events = [(0, Request), (1, Outcome UNAVAILABLE), (2, Outcome NOT_FOUND), (3, Request), (4, Outcome UNAVAILABLE)]"

theorem breaker_trips_at_threshold_witness:
  "cb_state (snd (run_breaker sample_breaker_config sample_events new_breaker)) = Open"
proof -
  have "trips (unat (failure_threshold sample_breaker_config)) 0 (outcomes sample_events)"
    by (simp add: sample_breaker_config_def sample_events_def is_transient_failure_def)
  then show ?thesis
    using breaker_trips_at_threshold [of sample_breaker_config sample_events]
    by (simp add: sample_breaker_config_def sample_events_def to_ms_def)
qed



text \<open>C33: a half-open breaker can stay shut forever.  Once the probes are used up, outcomes
  that are neither a success nor a transient failure release none of them: every later
  request is refused, at any time, and nothing changes.\<close>

theorem half_open_stuck:
  assumes "cb_enabled cfg" "cb_state b = HalfOpen" "half_open_probe_count cfg \<le> half_open_probes_in_flight b"
    and "\<forall>(t, e)\<in>set es. e = Request \<or> (\<exists>s. e = Outcome s \<and> s \<noteq> OK \<and> \<not> is_transient_failure s)"
  shows "run_breaker cfg es b = (replicate (length (filter (\<lambda>(t, e). e = Request) es)) False, b)"
  using assms(4)
proof (induction es)
  case (Cons e es)
  then show ?case
    using assms(1-3)
    by (cases e) (auto simp: allow_request_def record_status_def record_failure_def)
qed simp

text \<open>One probe that ends with \<open>NOT_FOUND\<close> is enough.\<close>

theorem half_open_stuck_witness:
  "fst (run_breaker sample_breaker_config
     [(5000000000, Request), (5000000001, Outcome NOT_FOUND), (900000000000, Request), (990000000000, Request)]
     \<lparr> cb_state = Open, consecutive_failures = 2, half_open_probes_in_flight = 0, open_time = 0 \<rparr>) = [True, False, False]"
proof -
  let ?b = "\<lparr> cb_state = HalfOpen, consecutive_failures = 2, half_open_probes_in_flight = 1, open_time = 0 \<rparr>"
  have "allow_request sample_breaker_config 5000000000
      \<lparr> cb_state = Open, consecutive_failures = 2, half_open_probes_in_flight = 0, open_time = 0 \<rparr> = (True, ?b)"
    by (simp add: allow_request_def sample_breaker_config_def recovered_def to_ms_def)
  moreover have "run_breaker sample_breaker_config
      [(5000000001, Outcome NOT_FOUND), (900000000000, Request), (990000000000, Request)] ?b = ([False, False], ?b)"
    using half_open_stuck [of sample_breaker_config ?b
        "[(5000000001, Outcome NOT_FOUND), (900000000000, Request), (990000000000, Request)]"]
    by (simp add: sample_breaker_config_def is_transient_failure_def numeral_2_eq_2 del: run_breaker.simps)
  ultimately show ?thesis by (simp only: run_breaker.simps prod.case fst_conv)
qed

end
