(* ===== verification/Request_Budget.thy ===== *)
theory Request_Budget
  imports Circuit_Breaker
begin

text \<open>
  \<open>DeadlineManager\<close> and \<open>RetryPolicy\<close> of the gateway
  (\<open>src/src/gateway/http/resilience\<close>).  The downstream call, the clock, the sleep
  and the randomised backoff act on a world that is a parameter; budgets are
  milliseconds.  The client timeout that the request headers carry is given parsed.
\<close>

section \<open>DeadlineManager\<close>

record deadlines_config =
  max_request_deadline_ms :: u32
  min_request_deadline_ms :: u32

definition compute_effective_deadline :: "deadlines_config \<Rightarrow> int option \<Rightarrow> int \<Rightarrow> int" where
  "compute_effective_deadline cfg client_timeout default_timeout =
    (case client_timeout of
       None \<Rightarrow> default_timeout
     | Some t \<Rightarrow>
        (let min_floor = uint (min_request_deadline_ms cfg); max_ceiling = uint (max_request_deadline_ms cfg)
         in if t < min_floor then min_floor else if max_ceiling < t then max_ceiling else t))"

definition compute_downstream_budget :: "time_point \<Rightarrow> time_point \<Rightarrow> int \<Rightarrow> int \<Rightarrow> int" where
  "compute_downstream_budget now start_tp effective_deadline service_timeout =
    (let elapsed = to_ms (now - start_tp)
     in if elapsed \<ge> effective_deadline then 0
        else min service_timeout (effective_deadline - elapsed))"

definition has_sufficient_budget :: "time_point \<Rightarrow> time_point \<Rightarrow> int \<Rightarrow> int \<Rightarrow> bool" where
  "has_sufficient_budget now start_tp effective_deadline minimum_required =
    (let elapsed = to_ms (now - start_tp)
     in if elapsed \<ge> effective_deadline then False else effective_deadline - elapsed \<ge> minimum_required)"

section \<open>RetryPolicy\<close>

datatype operation_idempotency = SAFE_READONLY | IDEMPOTENT_MUTATION | NON_IDEMPOTENT

record retry_config =
  max_attempts :: u32
  retry_on_deadline_exceeded :: bool

definition is_status_retryable :: "retry_config \<Rightarrow> grpc_status \<Rightarrow> bool" where
  "is_status_retryable cfg code =
    (if code = UNAVAILABLE then True
     else if retry_on_deadline_exceeded cfg \<and> code = DEADLINE_EXCEEDED then True
     else False)"

definition should_retry :: "retry_config \<Rightarrow> operation_idempotency \<Rightarrow> grpc_status \<Rightarrow> u32 \<Rightarrow> bool" where
  "should_retry cfg idempotency code current_attempt =
    (if idempotency = NON_IDEMPOTENT then False
     else if current_attempt \<ge> max_attempts cfg then False
     else is_status_retryable cfg code)"

text \<open>The world of a request: its clock, the downstream call with a budget, the computed
  backoff of an attempt (which draws a random number) and the pause.\<close>

record ('w, 'a) call_env =
  clock :: "'w \<Rightarrow> time_point"
  invoke :: "int \<Rightarrow> 'w \<Rightarrow> (grpc_status + 'a) \<times> 'w"
  backoff_delay :: "u32 \<Rightarrow> 'w \<Rightarrow> int \<times> 'w"
  pause :: "int \<Rightarrow> 'w \<Rightarrow> 'w"

definition sleep_for :: "('w, 'a) call_env \<Rightarrow> int \<Rightarrow> 'w \<Rightarrow> 'w" where
  "sleep_for env delay w = (if delay \<le> 0 then w else pause env delay w)"

lemma attempts_left:
  assumes "\<not> (m :: u32) \<le> a + 1"
  shows "unat (m - (a + 1 + 1)) < unat (m - (a + 1))"
proof -
  have "m - (a + 1) \<noteq> 0" using assms by auto
  then have "unat (m - (a + 1) - 1) < unat (m - (a + 1))" by (rule measure_unat)
  moreover have "m - (a + 1 + 1) = m - (a + 1) - 1" by simp
  ultimately show ?thesis by (simp only:)
qed

lemma retry_has_attempts: "should_retry cfg idem code a \<Longrightarrow> \<not> max_attempts cfg \<le> a"
  by (simp add: should_retry_def split: if_splits)

text \<open>The loop of \<open>execute\<close>; \<open>attempt\<close> is the counter before its increment.  The
  calls that were made, with their start and budget, are collected beside the result.\<close>

function execute_loop :: "('w, 'a) call_env \<Rightarrow> deadlines_config \<Rightarrow> retry_config \<Rightarrow> time_point \<Rightarrow> int \<Rightarrow> int
    \<Rightarrow> operation_idempotency \<Rightarrow> u32 \<Rightarrow> 'w \<Rightarrow> (grpc_status + 'a) \<times> (time_point \<times> int) list \<times> 'w" where
  "execute_loop env dl cfg start_tp deadline service_timeout idem attempt0 w =
    (let attempt = attempt0 + 1;
         call_budget = compute_downstream_budget (clock env w) start_tp deadline service_timeout
     in if call_budget \<le> 0 then (Inl DEADLINE_EXCEEDED, [], w)
        else case invoke env call_budget w of
            (Inr x, w1) \<Rightarrow> (Inr x, [(clock env w, call_budget)], w1)
          | (Inl code, w1) \<Rightarrow>
             if \<not> should_retry cfg idem code attempt then (Inl code, [(clock env w, call_budget)], w1)
             else
              (case backoff_delay env attempt w1 of (delay, w2) \<Rightarrow>
                 if to_ms (clock env w2 - start_tp) + delay + uint (min_request_deadline_ms dl) > deadline
                 then (Inl code, [(clock env w, call_budget)], w2)
                 else
                  (case execute_loop env dl cfg start_tp deadline service_timeout idem attempt (sleep_for env delay w2) of
                     (res, calls, w3) \<Rightarrow> (res, (clock env w, call_budget) # calls, w3))))"
  by pat_completeness auto

termination
  by (relation "measure (\<lambda>(env, dl, cfg, st, de, sv, idem, a, w). unat (max_attempts cfg - (a + 1)))")
    (simp_all only: in_measure wf_measure prod.case not_not attempts_left [OF retry_has_attempts])

declare execute_loop.simps [simp del]

definition execute :: "('w, 'a) call_env \<Rightarrow> deadlines_config \<Rightarrow> retry_config \<Rightarrow> time_point \<Rightarrow> int \<Rightarrow> int
    \<Rightarrow> operation_idempotency \<Rightarrow> 'w \<Rightarrow> (grpc_status + 'a) \<times> (time_point \<times> int) list \<times> 'w" where
  "execute env dl cfg start_tp deadline service_timeout idem w =
     execute_loop env dl cfg start_tp deadline service_timeout idem 0 w"

section \<open>Budgets and attempts\<close>

lemma budget_bounds:
  assumes "0 < compute_downstream_budget now st de sv"
  shows "compute_downstream_budget now st de sv \<le> sv" "to_ms (now - st) + compute_downstream_budget now st de sv \<le> de"
  using assms by (auto simp: compute_downstream_budget_def Let_def split: if_splits)

text \<open>A call is within its limits when its budget is positive, at most the timeout of the
  service, and ends by the deadline of the request.\<close>

definition call_within :: "time_point \<Rightarrow> int \<Rightarrow> int \<Rightarrow> time_point \<times> int \<Rightarrow> bool" where
  "call_within start_tp deadline service_timeout c \<longleftrightarrow>
     (case c of (t, b) \<Rightarrow> 0 < b \<and> b \<le> service_timeout \<and> to_ms (t - start_tp) + b \<le> deadline)"

lemma loop_attempts:
  assumes "execute_loop env dl cfg st de sv idem a w = (res, cs, w')" "a < max_attempts cfg \<or> (max_attempts cfg = 0 \<and> a = 0)"
  shows "length cs \<le> (if idem = NON_IDEMPOTENT then 1 else max 1 (unat (max_attempts cfg) - unat a)) \<and>
    list_all (call_within st de sv) cs"
  using assms
proof (induction env dl cfg st de sv idem a w arbitrary: res cs w' rule: execute_loop.induct)
  case (1 env dl cfg st de sv idem a w)
  let ?budget = "compute_downstream_budget (clock env w) st de sv"
  have within: "call_within st de sv (clock env w, ?budget)" if "0 < ?budget"
    using that budget_bounds [OF that] by (simp add: call_within_def)
  consider "cs = []" | "cs = [(clock env w, ?budget)]" "0 < ?budget"
    | code w1 delay w2 cs' where "0 < ?budget" "invoke env ?budget w = (Inl code, w1)" "should_retry cfg idem code (a + 1)"
        "backoff_delay env (a + 1) w1 = (delay, w2)"
        "\<not> to_ms (clock env w2 - st) + delay + uint (min_request_deadline_ms dl) > de"
        "execute_loop env dl cfg st de sv idem (a + 1) (sleep_for env delay w2) = (res, cs', w')"
        "cs = (clock env w, ?budget) # cs'"
    using "1.prems"(1)
    by (subst (asm) execute_loop.simps) (auto simp: Let_def split: if_splits prod.splits sum.splits)
  then show ?case
  proof cases
    case 2
    with within show ?thesis by auto
  next
    case (3 code w1 delay w2 cs')
    have next_attempt: "a + 1 < max_attempts cfg" "idem \<noteq> NON_IDEMPOTENT"
      using 3(3) by (auto simp: should_retry_def split: if_splits)
    have "length cs' \<le> (if idem = NON_IDEMPOTENT then 1 else max 1 (unat (max_attempts cfg) - unat (a + 1))) \<and>
        list_all (call_within st de sv) cs'"
      using 3(1,3) next_attempt
      by (intro "1.IH" [OF refl refl _ 3(2) [symmetric] refl _ 3(4) [symmetric] 3(5,6)]) auto
    moreover have "unat (a + 1) = Suc (unat a)"
      using "1.prems"(2) next_attempt(1) u32_increment [of a "max_attempts cfg"] by (auto simp: word_less_nat_alt)
    moreover have "unat (a + 1) < unat (max_attempts cfg)" using next_attempt(1) by (simp add: word_less_nat_alt)
    ultimately show ?thesis using 3(7) next_attempt(2) within [OF 3(1)] by auto
  qed auto
qed

section \<open>Properties\<close>

text \<open>C34: retries are bounded.  Whatever the downstream service, the clock and the backoff
  do, a request with retries ends, makes at most the configured number of attempts
  (one for an operation that is not idempotent), and every attempt has a positive
  budget within the timeout of the service that ends by the deadline of the request.\<close>

theorem retries_bounded:
  "length (fst (snd (execute env dl cfg start_tp deadline service_timeout idem w)))
      \<le> (if idem = NON_IDEMPOTENT then 1 else max 1 (unat (max_attempts cfg))) \<and>
    list_all (call_within start_tp deadline service_timeout)
      (fst (snd (execute env dl cfg start_tp deadline service_timeout idem w)))"
proof -
  obtain res cs w' where run: "execute_loop env dl cfg start_tp deadline service_timeout idem 0 w = (res, cs, w')"
    by (cases "execute_loop env dl cfg start_tp deadline service_timeout idem 0 w") auto
  have "0 < max_attempts cfg \<or> max_attempts cfg = 0" by (simp add: word_gt_0 disj_commute)
  with loop_attempts [OF run] show ?thesis by (auto simp: execute_def run)
qed

end
