(* ===== verification/Resource_Pools.thy ===== *)
theory Resource_Pools
  imports Prelude
begin

text \<open>
  The bounded pools of the services and their RAII leases: the workload bulkheads of
  the gateway (\<open>src/src/gateway/http/resilience/bulkhead_manager.cpp\<close>), the query
  limiter of audit (\<open>src/src/audit/query/query_bulkhead_limiter.hpp\<close>), and the
  concurrency bulkhead and the memory tracker of files
  (\<open>src/src/files/concurrency\<close>).  A compare-exchange loop and a section under a
  mutex are one atomic step.  The contract that a lease relies on is the locale
  \<open>resource_pool\<close>, and the correctness of leases is proved once in it.
\<close>

section \<open>Leases\<close>

text \<open>A lease object: it holds an amount of its pool or is empty.  The operations on the
  lease objects of one pool: construct one by trying to acquire, release (explicitly or
  in the destructor), and move-assign one to another.\<close>

datatype lease = Empty | Held nat

datatype lease_op = Acquire nat | Release nat | Move nat nat

definition release_lease :: "(nat \<Rightarrow> 's \<Rightarrow> 's) \<Rightarrow> nat \<Rightarrow> 's \<times> lease list \<Rightarrow> 's \<times> lease list" where
  "release_lease give i st = (case st of (s, ls) \<Rightarrow>
     (case ls ! i of Empty \<Rightarrow> (s, ls) | Held n \<Rightarrow> (give n s, ls[i := Empty])))"

definition move_lease :: "(nat \<Rightarrow> 's \<Rightarrow> 's) \<Rightarrow> nat \<Rightarrow> nat \<Rightarrow> 's \<times> lease list \<Rightarrow> 's \<times> lease list" where
  "move_lease give i j st =
    (if i = j then st
     else case release_lease give j st of (s, ls) \<Rightarrow> (s, ls[j := ls ! i, i := Empty]))"

fun lease_step :: "(nat \<Rightarrow> 's \<Rightarrow> bool \<times> 's) \<Rightarrow> (nat \<Rightarrow> 's \<Rightarrow> 's) \<Rightarrow> lease_op \<Rightarrow> 's \<times> lease list \<Rightarrow> 's \<times> lease list" where
  "lease_step grab give (Acquire n) (s, ls) =
    (case grab n s of (ok, s') \<Rightarrow> (s', ls @ [if ok then Held n else Empty]))"
| "lease_step grab give (Release i) (s, ls) =
    (if i < length ls then release_lease give i (s, ls) else (s, ls))"
| "lease_step grab give (Move i j) (s, ls) =
    (if i < length ls \<and> j < length ls then move_lease give i j (s, ls) else (s, ls))"

definition run_leases :: "(nat \<Rightarrow> 's \<Rightarrow> bool \<times> 's) \<Rightarrow> (nat \<Rightarrow> 's \<Rightarrow> 's) \<Rightarrow> lease_op list \<Rightarrow> 's \<Rightarrow> 's \<times> lease list" where
  "run_leases grab give ops s = fold (lease_step grab give) ops (s, [])"

fun amount :: "lease \<Rightarrow> nat" where
  "amount Empty = 0"
| "amount (Held n) = n"

definition held :: "lease list \<Rightarrow> nat" where
  "held ls = sum_list (map amount ls)"

lemma held_simps [simp]: "held [] = 0" "held (ls @ [l]) = held ls + amount l"
  by (simp_all add: held_def)

lemma held_update: "i < length ls \<Longrightarrow> held (ls[i := l]) + amount (ls ! i) = held ls + amount l"
  by (induction ls arbitrary: i) (auto simp: held_def nth_Cons' split: nat.splits)

lemma held_mem: "i < length ls \<Longrightarrow> amount (ls ! i) \<le> held ls"
  by (simp add: held_def member_le_sum_list)

section \<open>The contract of a pool\<close>

locale resource_pool =
  fixes used :: "'s \<Rightarrow> nat" and limit :: "'s \<Rightarrow> nat"
    and grab :: "nat \<Rightarrow> 's \<Rightarrow> bool \<times> 's" and give :: "nat \<Rightarrow> 's \<Rightarrow> 's"
    and fits :: "'s \<Rightarrow> nat \<Rightarrow> bool"
  assumes grab_ok: "used s \<le> limit s \<Longrightarrow> fits s n \<Longrightarrow> grab n s = (True, s') \<Longrightarrow>
      used s' = used s + n \<and> used s' \<le> limit s \<and> limit s' = limit s"
    and grab_full: "used s \<le> limit s \<Longrightarrow> fits s n \<Longrightarrow> grab n s = (False, s') \<Longrightarrow>
      used s' = used s \<and> limit s' = limit s \<and> limit s < used s + n"
    and give_back: "used s \<le> limit s \<Longrightarrow> fits s n \<Longrightarrow> n \<le> used s \<Longrightarrow> used (give n s) = used s - n \<and> limit (give n s) = limit s"
    and fits_limit: "limit s = limit s' \<Longrightarrow> fits s = fits s'"
begin

definition accounted :: "'s \<times> lease list \<Rightarrow> bool" where
  "accounted st \<longleftrightarrow> used (fst st) = held (snd st) \<and> used (fst st) \<le> limit (fst st) \<and>
    (\<forall>n. Held n \<in> set (snd st) \<longrightarrow> fits (fst st) n)"

lemma accounted_change:
  assumes "accounted (s, ls)" "limit s' = limit s" "used s' = held ls'" "used s' \<le> limit s"
    and "\<And>n. Held n \<in> set ls' \<Longrightarrow> Held n \<in> set ls \<or> fits s n"
  shows "accounted (s', ls')"
  using assms fits_limit [of s' s] by (auto simp: accounted_def)

lemma release_accounted:
  assumes "accounted (s, ls)" "i < length ls" "release_lease give i (s, ls) = (s', ls')"
  shows "accounted (s', ls') \<and> limit s' = limit s \<and> ls' = ls[i := Empty]"
proof (cases "ls ! i")
  case Empty
  with assms show ?thesis by (auto simp: release_lease_def) (metis list_update_id)+
next
  case (Held n)
  then have mem: "Held n \<in> set ls" using assms(2) nth_mem by metis
  then have n: "n \<le> used s" "fits s n" "used s \<le> limit s" "used s = held ls"
    using held_mem [OF assms(2)] assms(1) Held by (auto simp: accounted_def)
  have eq: "s' = give n s" "ls' = ls[i := Empty]" using assms(3) Held by (auto simp: release_lease_def)
  have u: "used s' = used s - n" "limit s' = limit s" using give_back n(1-3) eq(1) by auto
  have h: "used s' = held ls'" using held_update [OF assms(2), of Empty] Held u n eq by simp
  have "accounted (s', ls')"
    by (rule accounted_change [OF assms(1) u(2) h])
      (use u n eq set_update_subset_insert [of ls i Empty] in auto)
  with u eq show ?thesis by simp
qed

lemma move_accounted:
  assumes "accounted (s, ls)" "i < length ls" "j < length ls" "move_lease give i j (s, ls) = (s', ls')"
  shows "accounted (s', ls') \<and> limit s' = limit s"
proof (cases "i = j")
  case False
  obtain s1 ls1 where r: "release_lease give j (s, ls) = (s1, ls1)" by fastforce
  from release_accounted [OF assms(1,3) r]
  have r1: "accounted (s1, ls1)" "limit s1 = limit s" "ls1 = ls[j := Empty]" by auto
  have eq: "s' = s1" "ls' = ls1[j := ls1 ! i, i := Empty]"
    using assms(4) False r by (auto simp: move_lease_def)
  have h: "held ls' = held ls1"
    using held_update [of i "ls1[j := ls1 ! i]" Empty] held_update [of j ls1 "ls1 ! i"] assms False r1(3) eq by simp
  have "set ls' \<subseteq> insert Empty (insert (ls1 ! i) (set ls1))"
    using set_update_subset_insert [of "ls1[j := ls1 ! i]" i Empty] set_update_subset_insert [of ls1 j "ls1 ! i"] eq
    by auto
  moreover have "ls1 ! i \<in> set ls1" using assms(2) r1(3) by simp
  ultimately have "accounted (s', ls')"
    using accounted_change [OF r1(1), of s' ls'] r1(1) eq(1) h by (auto simp: accounted_def)
  with eq r1 show ?thesis by simp
qed (use assms in \<open>simp add: move_lease_def\<close>)

lemma step_accounted:
  assumes "accounted (s, ls)" "case op of Acquire n \<Rightarrow> fits s n | _ \<Rightarrow> True"
    and "lease_step grab give op (s, ls) = (s', ls')"
  shows "accounted (s', ls') \<and> limit s' = limit s"
proof (cases op)
  case (Acquire n)
  obtain ok s1 where g: "grab n s = (ok, s1)" by fastforce
  have eq: "s' = s1" "ls' = ls @ [if ok then Held n else Empty]" using assms(3) Acquire g by auto
  have u: "used s \<le> limit s" "fits s n" "used s = held ls" using assms Acquire by (auto simp: accounted_def)
  have lim: "limit s' = limit s \<and> used s' = held ls' \<and> used s' \<le> limit s"
  proof (cases ok)
    case True
    with grab_ok [OF u(1,2), of s1] g u(3) show ?thesis by (simp add: eq)
  next
    case False
    with grab_full [OF u(1,2), of s1] g u(1,3) show ?thesis by (simp add: eq)
  qed
  have "accounted (s', ls')"
    by (rule accounted_change [OF assms(1)]) (use lim u(2) eq in \<open>auto split: if_splits\<close>)
  with lim show ?thesis by simp
next
  case (Release i)
  with assms(1,3) release_accounted [OF assms(1), of i s' ls'] show ?thesis
    by (cases "i < length ls") auto
next
  case (Move i j)
  with assms(1,3) move_accounted [OF assms(1), of i j s' ls'] show ?thesis
    by (cases "i < length ls \<and> j < length ls") auto
qed

text \<open>After any operations on leases, the use of the pool is what the leases hold, and it
  is within the limit.\<close>

lemma run_accounted:
  assumes "used s \<le> limit s" "used s = 0" "\<forall>n. Acquire n \<in> set ops \<longrightarrow> fits s n"
  shows "accounted (run_leases grab give ops s) \<and> limit (fst (run_leases grab give ops s)) = limit s"
proof -
  have "accounted (fold (lease_step grab give) ops st) \<and> limit (fst (fold (lease_step grab give) ops st)) = limit s"
    if "accounted st" "limit (fst st) = limit s" "\<forall>n. Acquire n \<in> set ops \<longrightarrow> fits s n" for st ops
    using that
  proof (induction ops arbitrary: st)
    case (Cons op ops)
    obtain s0 ls where st: "st = (s0, ls)" by fastforce
    obtain s1 ls1 where step: "lease_step grab give op (s0, ls) = (s1, ls1)" by fastforce
    have "case op of Acquire n \<Rightarrow> fits s0 n | _ \<Rightarrow> True"
      using Cons.prems(2,3) st fits_limit [of s0 s] by (auto split: lease_op.splits)
    from step_accounted [OF _ this step] Cons.prems st
    have "accounted (s1, ls1)" "limit s1 = limit s" by auto
    with Cons.IH Cons.prems(3) show ?case by (simp add: st step)
  qed simp
  from this [of "(s, [])" ops] assms show ?thesis by (simp add: run_leases_def accounted_def)
qed

text \<open>A further acquisition is granted exactly if it fits beside what the leases hold.\<close>

lemma grants:
  assumes "accounted st" "fits (fst st) n"
  shows "fst (grab n (fst st)) \<longleftrightarrow> held (snd st) + n \<le> limit (fst st)"
proof -
  obtain ok s' where g: "grab n (fst st) = (ok, s')" by fastforce
  have u: "used (fst st) \<le> limit (fst st)" "used (fst st) = held (snd st)" using assms(1) by (auto simp: accounted_def)
  show ?thesis
    using grab_ok [OF u(1) assms(2), of s'] grab_full [OF u(1) assms(2), of s'] g u(2) by (cases ok) auto
qed

lemma leases_exact:
  assumes "used s = 0" "\<forall>n. Acquire n \<in> set ops \<longrightarrow> fits s n" "fits s k" "run_leases grab give ops s = (s', ls)"
  shows "used s' = held ls \<and> held ls \<le> limit s \<and> limit s' = limit s \<and>
    (fst (grab k s') \<longleftrightarrow> held ls + k \<le> limit s)"
proof -
  from run_accounted [OF _ assms(1,2)] assms(1,4) have "accounted (s', ls)" "limit s' = limit s" by auto
  with grants [of "(s', ls)" k] assms(3) fits_limit [of s' s] show ?thesis by (auto simp: accounted_def)
qed

end

section \<open>WorkloadBulkhead and BulkheadManager\<close>

datatype workload_category = WC_Auth | WC_Messaging | WC_Files | WC_Emergency

definition workload_category_to_string :: "workload_category \<Rightarrow> string" where
  "workload_category_to_string category = (case category of
     WC_Auth \<Rightarrow> ''Auth'' | WC_Messaging \<Rightarrow> ''Messaging'' | WC_Files \<Rightarrow> ''Files'' | WC_Emergency \<Rightarrow> ''Emergency'')"

record workload_bulkhead =
  wb_max_concurrent :: u32
  wb_active_count :: u32

definition new_workload_bulkhead :: "u32 \<Rightarrow> workload_bulkhead" where
  "new_workload_bulkhead m = \<lparr> wb_max_concurrent = m, wb_active_count = 0 \<rparr>"

definition wb_try_acquire :: "workload_bulkhead \<Rightarrow> bool \<times> workload_bulkhead" where
  "wb_try_acquire b =
    (if wb_active_count b \<ge> wb_max_concurrent b then (False, b)
     else (True, b\<lparr> wb_active_count := wb_active_count b + 1 \<rparr>))"

definition wb_release :: "workload_bulkhead \<Rightarrow> workload_bulkhead" where
  "wb_release b =
    (let prev = wb_active_count b; b1 = b\<lparr> wb_active_count := prev - 1 \<rparr>
     in if prev = 0 then b1\<lparr> wb_active_count := 0 \<rparr> else b1)"

definition wb_available_slots :: "workload_bulkhead \<Rightarrow> u32" where
  "wb_available_slots b =
    (if wb_active_count b < wb_max_concurrent b then wb_max_concurrent b - wb_active_count b else 0)"

definition set_max_concurrent :: "u32 \<Rightarrow> workload_bulkhead \<Rightarrow> workload_bulkhead" where
  "set_max_concurrent m b = b\<lparr> wb_max_concurrent := m \<rparr>"

record bulkhead_config =
  auth_max_concurrent :: u32
  messaging_max_concurrent :: u32
  files_max_concurrent :: u32
  emergency_reserved_slots :: u32

type_synonym bulkhead_manager = "workload_category \<Rightarrow> workload_bulkhead"

definition new_bulkhead_manager :: "bulkhead_config \<Rightarrow> bulkhead_manager" where
  "new_bulkhead_manager cfg category = (case category of
     WC_Auth \<Rightarrow> new_workload_bulkhead (auth_max_concurrent cfg)
   | WC_Messaging \<Rightarrow> new_workload_bulkhead (messaging_max_concurrent cfg)
   | WC_Files \<Rightarrow> new_workload_bulkhead (files_max_concurrent cfg)
   | WC_Emergency \<Rightarrow> new_workload_bulkhead (emergency_reserved_slots cfg))"

definition has_prefix :: "string \<Rightarrow> string \<Rightarrow> bool" where
  "has_prefix p s = (take (length p) s = p)"

definition classify_path :: "string \<Rightarrow> workload_category" where
  "classify_path path =
    (if has_prefix ''/health'' path then WC_Emergency
     else if has_prefix ''/api/v1/messages'' path then WC_Messaging
     else if has_prefix ''/api/v1/files'' path then WC_Files
     else WC_Auth)"

definition acquire_category :: "workload_category \<Rightarrow> bulkhead_manager \<Rightarrow> bool \<times> bulkhead_manager" where
  "acquire_category category m =
    (case wb_try_acquire (m category) of (acquired, b) \<Rightarrow> (acquired, m(category := b)))"

definition acquire_for_path :: "string \<Rightarrow> bulkhead_manager \<Rightarrow> bool \<times> bulkhead_manager" where
  "acquire_for_path path m = acquire_category (classify_path path) m"

section \<open>QueryBulkheadLimiter\<close>

record query_limiter =
  max_concurrent_queries :: u32
  active_queries :: u32
  rejections_total :: u64

definition new_query_limiter :: "u32 \<Rightarrow> query_limiter" where
  "new_query_limiter m = \<lparr> max_concurrent_queries = m, active_queries = 0, rejections_total = 0 \<rparr>"

definition ql_try_acquire :: "query_limiter \<Rightarrow> bool \<times> query_limiter" where
  "ql_try_acquire l =
    (if active_queries l < max_concurrent_queries l
     then (True, l\<lparr> active_queries := active_queries l + 1 \<rparr>)
     else (False, l\<lparr> rejections_total := rejections_total l + 1 \<rparr>))"

definition ql_release :: "query_limiter \<Rightarrow> query_limiter" where
  "ql_release l = l\<lparr> active_queries := active_queries l - 1 \<rparr>"

section \<open>ConcurrencyBulkhead\<close>

record concurrency_bulkhead =
  cbh_max_concurrency :: u64
  cbh_active_permits :: u64

definition new_concurrency_bulkhead :: "u64 \<Rightarrow> concurrency_bulkhead" where
  "new_concurrency_bulkhead m = \<lparr> cbh_max_concurrency = (if m > 0 then m else 1), cbh_active_permits = 0 \<rparr>"

text \<open>A timed wait is decided by the last evaluation of its predicate, in the state that
  holds then, so it is the same step as the immediate attempt.\<close>

definition cbh_try_acquire :: "concurrency_bulkhead \<Rightarrow> bool \<times> concurrency_bulkhead" where
  "cbh_try_acquire b =
    (if cbh_active_permits b < cbh_max_concurrency b
     then (True, b\<lparr> cbh_active_permits := cbh_active_permits b + 1 \<rparr>)
     else (False, b))"

definition cbh_release_permit :: "concurrency_bulkhead \<Rightarrow> concurrency_bulkhead" where
  "cbh_release_permit b =
    (if cbh_active_permits b > 0 then b\<lparr> cbh_active_permits := cbh_active_permits b - 1 \<rparr> else b)"

definition cbh_available_permits :: "concurrency_bulkhead \<Rightarrow> u64" where
  "cbh_available_permits b =
    (if cbh_active_permits b \<ge> cbh_max_concurrency b then 0 else cbh_max_concurrency b - cbh_active_permits b)"

section \<open>MemoryBufferTracker\<close>

record memory_tracker =
  max_memory_bytes :: u64
  current_reserved_bytes :: u64

definition new_memory_tracker :: "u64 \<Rightarrow> memory_tracker" where
  "new_memory_tracker m = \<lparr> max_memory_bytes = (if m > 0 then m else 1), current_reserved_bytes = 0 \<rparr>"

definition try_reserve :: "u64 \<Rightarrow> memory_tracker \<Rightarrow> bool \<times> memory_tracker" where
  "try_reserve bytes t =
    (if bytes = 0 then (False, t)
     else if current_reserved_bytes t + bytes \<le> max_memory_bytes t
     then (True, t\<lparr> current_reserved_bytes := current_reserved_bytes t + bytes \<rparr>)
     else (False, t))"

definition release_bytes :: "u64 \<Rightarrow> memory_tracker \<Rightarrow> memory_tracker" where
  "release_bytes bytes t =
    (if bytes \<ge> current_reserved_bytes t then t\<lparr> current_reserved_bytes := 0 \<rparr>
     else t\<lparr> current_reserved_bytes := current_reserved_bytes t - bytes \<rparr>)"

definition available_bytes :: "memory_tracker \<Rightarrow> u64" where
  "available_bytes t =
    (if current_reserved_bytes t \<ge> max_memory_bytes t then 0 else max_memory_bytes t - current_reserved_bytes t)"

text \<open>The message of a refusal is the constructor of its error, with the sizes it prints.\<close>

datatype size_error = Size_zero | Size_exceeds u64 u64

definition validate_chunk_request_size :: "u64 \<Rightarrow> u64 \<Rightarrow> size_error + unit" where
  "validate_chunk_request_size chunk_bytes max_allowed_bytes =
    (if chunk_bytes = 0 then Inl Size_zero
     else if chunk_bytes > max_allowed_bytes then Inl (Size_exceeds chunk_bytes max_allowed_bytes)
     else Inr ())"

definition validate_file_transfer_size :: "u64 \<Rightarrow> u64 \<Rightarrow> size_error + unit" where
  "validate_file_transfer_size transfer_bytes max_allowed_bytes =
    (if transfer_bytes = 0 then Inl Size_zero
     else if transfer_bytes > max_allowed_bytes then Inl (Size_exceeds transfer_bytes max_allowed_bytes)
     else Inr ())"

section \<open>The pools meet the contract\<close>

lemmas pool_word_simps = unat_dec word_le_nat_alt word_less_nat_alt unat_eq_zero

interpretation gateway_slots: resource_pool
  "\<lambda>b. unat (wb_active_count b)" "\<lambda>b. unat (wb_max_concurrent b)"
  "\<lambda>_. wb_try_acquire" "\<lambda>_. wb_release" "\<lambda>_ n. n = 1"
  by unfold_locales
    (auto simp: wb_try_acquire_def unat_inc [of "wb_active_count s" "wb_max_concurrent s" for s] wb_release_def Let_def
      pool_word_simps
      split: if_splits)

interpretation query_slots: resource_pool
  "\<lambda>l. unat (active_queries l)" "\<lambda>l. unat (max_concurrent_queries l)"
  "\<lambda>_. ql_try_acquire" "\<lambda>_. ql_release" "\<lambda>_ n. n = 1"
  by unfold_locales
    (auto simp: ql_try_acquire_def unat_inc [of "active_queries s" "max_concurrent_queries s" for s] ql_release_def pool_word_simps
      split: if_splits)

interpretation transfer_slots: resource_pool
  "\<lambda>b. unat (cbh_active_permits b)" "\<lambda>b. unat (cbh_max_concurrency b)"
  "\<lambda>_. cbh_try_acquire" "\<lambda>_. cbh_release_permit" "\<lambda>_ n. n = 1"
  by unfold_locales
    (auto simp: cbh_try_acquire_def unat_inc [of "cbh_active_permits s" "cbh_max_concurrency s" for s] cbh_release_permit_def pool_word_simps
      split: if_splits)

lemma unat_sum:
  assumes "unat (a :: u64) + n < 2 ^ 64"
  shows "unat (a + of_nat n) = unat a + n"
proof -
  have "unat (of_nat n :: u64) = n" using assms by (simp add: unat_of_nat)
  then show ?thesis using assms by (simp add: unat_word_ariths)
qed

lemma unat_diff:
  assumes "n < unat (a :: u64)"
  shows "unat (a - of_nat n) = unat a - n"
proof -
  have "unat a < 2 ^ LENGTH(64)" by (rule unsigned_less)
  then have n: "unat (of_nat n :: u64) = n" using assms by (simp add: unat_of_nat)
  then have "of_nat n \<le> a" using assms by (simp add: word_le_nat_alt)
  then show ?thesis using n by (simp add: unat_sub)
qed

definition reservable :: "memory_tracker \<Rightarrow> nat \<Rightarrow> bool" where
  "reservable t n \<longleftrightarrow> 0 < n \<and> unat (max_memory_bytes t) + n < 2 ^ 64"

lemma reservable_word:
  assumes "reservable t n"
  shows "unat (of_nat n :: u64) = n" "(of_nat n :: u64) \<noteq> 0"
proof -
  show n: "unat (of_nat n :: u64) = n" using assms by (simp add: unat_of_nat reservable_def)
  show "(of_nat n :: u64) \<noteq> 0" using n assms by (metis reservable_def less_irrefl unat_0)
qed

interpretation buffer_bytes: resource_pool
  "\<lambda>t. unat (current_reserved_bytes t)" "\<lambda>t. unat (max_memory_bytes t)"
  "\<lambda>n. try_reserve (of_nat n)" "\<lambda>n. release_bytes (of_nat n)" reservable
proof
  fix t n t'
  assume a: "unat (current_reserved_bytes t) \<le> unat (max_memory_bytes t)" "reservable t n"
  then have sum: "unat (current_reserved_bytes t + of_nat n) = unat (current_reserved_bytes t) + n"
    by (intro unat_sum) (simp add: reservable_def)
  show "unat (current_reserved_bytes t') = unat (current_reserved_bytes t) + n \<and>
      unat (current_reserved_bytes t') \<le> unat (max_memory_bytes t) \<and>
      unat (max_memory_bytes t') = unat (max_memory_bytes t)"
    if "try_reserve (of_nat n) t = (True, t')"
    using that sum by (auto simp: try_reserve_def word_le_nat_alt split: if_splits)
  show "unat (current_reserved_bytes t') = unat (current_reserved_bytes t) \<and>
      unat (max_memory_bytes t') = unat (max_memory_bytes t) \<and>
      unat (max_memory_bytes t) < unat (current_reserved_bytes t) + n"
    if "try_reserve (of_nat n) t = (False, t')"
    using that sum reservable_word(2) [OF a(2)] by (auto simp: try_reserve_def word_le_nat_alt split: if_splits)
next
  fix t n
  assume "reservable t n" "n \<le> unat (current_reserved_bytes t)"
  then show "unat (current_reserved_bytes (release_bytes (of_nat n) t)) = unat (current_reserved_bytes t) - n \<and>
      unat (max_memory_bytes (release_bytes (of_nat n) t)) = unat (max_memory_bytes t)"
    using unat_diff [of n "current_reserved_bytes t"] reservable_word(1) [of t n]
    by (auto simp: release_bytes_def word_le_nat_alt)
qed (auto simp: reservable_def fun_eq_iff)

text \<open>The service validates a size before it reserves it: below the cap on a request the
  sum cannot leave the range of \<open>size_t\<close>.\<close>

lemma validated_reservable:
  assumes "validate_chunk_request_size bytes cap = Inr ()" "unat (max_memory_bytes t) + unat cap < 2 ^ 64"
  shows "reservable t (unat bytes)"
  using assms
  by (auto simp: validate_chunk_request_size_def reservable_def word_less_nat_alt unat_gt_0 split: if_splits)

section \<open>Properties\<close>

text \<open>C35: leases account for their pool exactly.  After any sequence of acquisitions,
  releases (repeated ones too) and moves of leases on a fresh pool, the counter of the pool
  is the sum of what the live leases hold and never exceeds the limit, and the next
  acquisition is granted exactly if it still fits: for the workload bulkhead of the gateway,
  the query limiter of audit, the concurrency bulkhead of files, and the memory tracker of
  files for the amounts that its callers validate.\<close>

theorem leases_account_for_pools:
  assumes "\<forall>n. Acquire n \<in> set ops \<longrightarrow> n = 1"
    and "\<forall>n. Acquire n \<in> set mem_ops \<longrightarrow> (\<exists>w. n = unat w \<and> validate_chunk_request_size w cap = Inr ())"
    and "validate_chunk_request_size k cap = Inr ()" "max 1 (unat c) + unat cap < 2 ^ 64"
  shows "(case run_leases (\<lambda>_. wb_try_acquire) (\<lambda>_. wb_release) ops (new_workload_bulkhead m) of (b, ls) \<Rightarrow>
      unat (wb_active_count b) = held ls \<and> held ls \<le> unat m \<and> (fst (wb_try_acquire b) \<longleftrightarrow> held ls < unat m)) \<and>
    (case run_leases (\<lambda>_. ql_try_acquire) (\<lambda>_. ql_release) ops (new_query_limiter m) of (l, ls) \<Rightarrow>
      unat (active_queries l) = held ls \<and> held ls \<le> unat m \<and> (fst (ql_try_acquire l) \<longleftrightarrow> held ls < unat m)) \<and>
    (case run_leases (\<lambda>_. cbh_try_acquire) (\<lambda>_. cbh_release_permit) ops (new_concurrency_bulkhead c) of (b, ls) \<Rightarrow>
      unat (cbh_active_permits b) = held ls \<and> held ls \<le> max 1 (unat c) \<and>
      (fst (cbh_try_acquire b) \<longleftrightarrow> held ls < max 1 (unat c))) \<and>
    (case run_leases (\<lambda>n. try_reserve (of_nat n)) (\<lambda>n. release_bytes (of_nat n)) mem_ops (new_memory_tracker c) of
      (t, ls) \<Rightarrow> unat (current_reserved_bytes t) = held ls \<and> held ls \<le> max 1 (unat c) \<and>
      (fst (try_reserve k t) \<longleftrightarrow> held ls + unat k \<le> max 1 (unat c)))"
proof -
  have c: "unat (if c > 0 then c else 1) = max 1 (unat c)"
    by (simp add: word_less_nat_alt)
  have cap: "unat (max_memory_bytes (new_memory_tracker c)) + unat cap < 2 ^ 64"
    using assms(4) c by (simp add: new_memory_tracker_def)
  have ops: "\<forall>n. Acquire n \<in> set mem_ops \<longrightarrow> reservable (new_memory_tracker c) n"
    using assms(2) validated_reservable [OF _ cap] by blast
  have k: "reservable (new_memory_tracker c) (unat k)" by (rule validated_reservable [OF assms(3) cap])
  have "case run_leases (\<lambda>_. wb_try_acquire) (\<lambda>_. wb_release) ops (new_workload_bulkhead m) of (b, ls) \<Rightarrow>
      unat (wb_active_count b) = held ls \<and> held ls \<le> unat m \<and> (fst (wb_try_acquire b) \<longleftrightarrow> held ls < unat m)"
    using gateway_slots.leases_exact [OF _ assms(1), of "new_workload_bulkhead m" 1]
    by (auto simp: new_workload_bulkhead_def Suc_le_eq split: prod.split)
  moreover have "case run_leases (\<lambda>_. ql_try_acquire) (\<lambda>_. ql_release) ops (new_query_limiter m) of (l, ls) \<Rightarrow>
      unat (active_queries l) = held ls \<and> held ls \<le> unat m \<and> (fst (ql_try_acquire l) \<longleftrightarrow> held ls < unat m)"
    using query_slots.leases_exact [OF _ assms(1), of "new_query_limiter m" 1]
    by (auto simp: new_query_limiter_def Suc_le_eq split: prod.split)
  moreover have "case run_leases (\<lambda>_. cbh_try_acquire) (\<lambda>_. cbh_release_permit) ops (new_concurrency_bulkhead c) of (b, ls) \<Rightarrow>
      unat (cbh_active_permits b) = held ls \<and> held ls \<le> max 1 (unat c) \<and>
      (fst (cbh_try_acquire b) \<longleftrightarrow> held ls < max 1 (unat c))"
    using transfer_slots.leases_exact [OF _ assms(1), of "new_concurrency_bulkhead c" 1] c
    by (simp add: new_concurrency_bulkhead_def Suc_le_eq split: prod.split)
  moreover have "case run_leases (\<lambda>n. try_reserve (of_nat n)) (\<lambda>n. release_bytes (of_nat n)) mem_ops (new_memory_tracker c) of
      (t, ls) \<Rightarrow> unat (current_reserved_bytes t) = held ls \<and> held ls \<le> max 1 (unat c) \<and>
      (fst (try_reserve k t) \<longleftrightarrow> held ls + unat k \<le> max 1 (unat c))"
    using buffer_bytes.leases_exact [OF _ ops k] c
    by (simp add: new_memory_tracker_def split: prod.split)
  ultimately show ?thesis by blast
qed

theorem leases_account_for_pools_witness:
  "validate_chunk_request_size 5 6 = Inr () \<and>
   (case run_leases (\<lambda>_. wb_try_acquire) (\<lambda>_. wb_release) [Acquire 1, Acquire 1, Move 0 1, Release 0]
       (new_workload_bulkhead 2) of (b, ls) \<Rightarrow> unat (wb_active_count b) = held ls \<and> held ls \<le> unat (2 :: u32)) \<and>
   (case run_leases (\<lambda>n. try_reserve (of_nat n)) (\<lambda>n. release_bytes (of_nat n)) [Acquire 5] (new_memory_tracker 8) of
      (t, ls) \<Rightarrow> fst (try_reserve 5 t) \<longleftrightarrow> held ls + 5 \<le> 8)"
proof -
  have v: "validate_chunk_request_size 5 6 = Inr ()" by (simp add: validate_chunk_request_size_def)
  have "\<forall>n. Acquire n \<in> set [Acquire 5] \<longrightarrow> (\<exists>w. n = unat w \<and> validate_chunk_request_size w 6 = Inr ())"
    using v by (auto intro!: exI [of _ "5 :: u64"])
  with v show ?thesis
    using leases_account_for_pools [of "[Acquire 1, Acquire 1, Move 0 1, Release 0]" "[Acquire 5]" 6 5 8 2]
    by (auto split: prod.splits)
qed

end
