(* ===== verification/Drain_Manager.thy ===== *)
theory Drain_Manager
  imports Prelude
begin

text \<open>
  The graceful drain of the gateway
  (\<open>src/src/gateway/http/resilience/drain_manager.cpp\<close>), as a step relation: each
  atomic access of \<open>DrainManager::try_acquire\<close>, \<open>decrement_in_flight\<close> and
  \<open>start_drain\<close> is one step, and the steps of any number of request threads
  interleave with those of the thread that drains.  The accesses are taken as sequentially
  consistent.  The wait on the condition variable may evaluate its predicate at any time, so
  spurious wake-ups are included.
\<close>

section \<open>State\<close>

text \<open>Where a request thread is: outside, past the first test of the flag, past the
  increment, about to undo it after the second test, or holding the lease.\<close>

datatype request_pc = Outside | Tested | Counted | Undoing | Leased

datatype drain_pc = Not_started | Flagged | Reported | Waiting | Returned bool

record drain_state =
  health_manager :: bool
  is_draining :: bool
  in_flight_requests :: int
  shutting_down :: bool
  ready :: bool
  requests :: "nat \<Rightarrow> request_pc"
  drainer :: drain_pc

definition initial_drain :: "bool \<Rightarrow> drain_state" where
  "initial_drain h = \<lparr> health_manager = h, is_draining = False, in_flight_requests = 0, shutting_down = False, ready = True,
     requests = (\<lambda>_. Outside), drainer = Not_started \<rparr>"

abbreviation goto :: "nat \<Rightarrow> request_pc \<Rightarrow> drain_state \<Rightarrow> drain_state" where
  "goto t pc s \<equiv> s\<lparr> requests := (requests s)(t := pc) \<rparr>"

section \<open>Steps\<close>

definition first_test :: "nat \<Rightarrow> drain_state \<Rightarrow> drain_state" where
  "first_test t s = (if is_draining s then s else goto t Tested s)"

definition count_request :: "nat \<Rightarrow> drain_state \<Rightarrow> drain_state" where
  "count_request t s = goto t Counted (s\<lparr> in_flight_requests := in_flight_requests s + 1 \<rparr>)"

definition second_test :: "nat \<Rightarrow> drain_state \<Rightarrow> drain_state" where
  "second_test t s = goto t (if is_draining s then Undoing else Leased) s"

definition decrement_in_flight :: "nat \<Rightarrow> drain_state \<Rightarrow> drain_state" where
  "decrement_in_flight t s = goto t Outside (s\<lparr> in_flight_requests := in_flight_requests s - 1 \<rparr>)"

definition set_draining :: "drain_state \<Rightarrow> drain_state" where
  "set_draining s = s\<lparr> is_draining := True, drainer := Flagged \<rparr>"

definition report_shutdown :: "drain_state \<Rightarrow> drain_state" where
  "report_shutdown s =
    (if health_manager s then s\<lparr> shutting_down := True, ready := False \<rparr> else s)\<lparr> drainer := Reported \<rparr>"

definition drain_check :: "drain_state \<Rightarrow> drain_state" where
  "drain_check s = s\<lparr> drainer := (if in_flight_requests s = 0 then Returned True else Waiting) \<rparr>"

definition drain_timeout :: "drain_state \<Rightarrow> drain_state" where
  "drain_timeout s = s\<lparr> drainer := Returned (in_flight_requests s = 0) \<rparr>"

inductive drain_step :: "drain_state \<Rightarrow> drain_state \<Rightarrow> bool" where
  step_test: "requests s t = Outside \<Longrightarrow> drain_step s (first_test t s)"
| step_count: "requests s t = Tested \<Longrightarrow> drain_step s (count_request t s)"
| step_retest: "requests s t = Counted \<Longrightarrow> drain_step s (second_test t s)"
| step_undo: "requests s t = Undoing \<Longrightarrow> drain_step s (decrement_in_flight t s)"
| step_release: "requests s t = Leased \<Longrightarrow> drain_step s (decrement_in_flight t s)"
| step_drain: "drainer s = Not_started \<Longrightarrow> drain_step s (set_draining s)"
| step_report: "drainer s = Flagged \<Longrightarrow> drain_step s (report_shutdown s)"
| step_check: "drainer s = Reported \<or> drainer s = Waiting \<Longrightarrow> drain_step s (drain_check s)"
| step_timeout: "drainer s = Waiting \<Longrightarrow> drain_step s (drain_timeout s)"

lemmas drain_defs = first_test_def count_request_def second_test_def decrement_in_flight_def
  set_draining_def report_shutdown_def drain_check_def drain_timeout_def

section \<open>Invariant\<close>

definition counted :: "(nat \<Rightarrow> request_pc) \<Rightarrow> nat set" where
  "counted rs = {t. rs t \<in> {Counted, Undoing, Leased}}"

definition drain_inv :: "drain_state \<Rightarrow> bool" where
  "drain_inv s \<longleftrightarrow> finite (counted (requests s)) \<and> in_flight_requests s = int (card (counted (requests s))) \<and>
    (is_draining s \<longleftrightarrow> drainer s \<noteq> Not_started) \<and>
    (drainer s \<notin> {Not_started, Flagged} \<and> health_manager s \<longrightarrow> shutting_down s \<and> \<not> ready s) \<and>
    (drainer s = Returned True \<longrightarrow> (\<forall>t. requests s t \<noteq> Leased))"

lemma counted_upd:
  "counted (rs(t := pc)) = (if pc \<in> {Counted, Undoing, Leased} then insert t (counted rs) else counted rs - {t})"
  by (auto simp: counted_def)

lemma counted_iff: "t \<in> counted rs \<longleftrightarrow> rs t \<in> {Counted, Undoing, Leased}"
  by (simp add: counted_def)

lemma no_lease_at_zero:
  assumes "drain_inv s" "in_flight_requests s = 0"
  shows "requests s t \<noteq> Leased"
proof -
  have "card (counted (requests s)) = 0" "finite (counted (requests s))" using assms by (simp_all add: drain_inv_def)
  then show ?thesis using counted_iff [of t "requests s"] by auto
qed

lemma drain_inv_initial: "drain_inv (initial_drain h)"
  by (simp add: drain_inv_def initial_drain_def counted_def)

lemma drain_inv_step:
  assumes "drain_step s s'" "drain_inv s"
  shows "drain_inv s'"
  using assms
proof cases
  case (step_count t)
  then have "t \<notin> counted (requests s)" by (simp add: counted_def)
  with assms(2) step_count show ?thesis
    by (auto simp: drain_inv_def count_request_def counted_upd)
next
  case (step_retest t)
  then have "t \<in> counted (requests s)" by (simp add: counted_def)
  with assms(2) step_retest show ?thesis
    by (auto simp: drain_inv_def second_test_def counted_upd insert_absorb)
next
  case (step_undo t)
  then have "t \<in> counted (requests s)" by (simp add: counted_def)
  then have "card (counted (requests s)) > 0" using assms(2) by (auto simp: drain_inv_def card_gt_0_iff)
  with assms(2) step_undo \<open>t \<in> counted (requests s)\<close> show ?thesis
    by (auto simp: drain_inv_def decrement_in_flight_def counted_upd)
next
  case (step_release t)
  then have "t \<in> counted (requests s)" by (simp add: counted_def)
  then have "card (counted (requests s)) > 0" using assms(2) by (auto simp: drain_inv_def card_gt_0_iff)
  with assms(2) step_release \<open>t \<in> counted (requests s)\<close> show ?thesis
    by (auto simp: drain_inv_def decrement_in_flight_def counted_upd)
next
  case (step_test t)
  then have "t \<notin> counted (requests s)" by (simp add: counted_def)
  with assms(2) step_test show ?thesis
    by (auto simp: drain_inv_def first_test_def counted_upd)
next
  case step_check
  with assms(2) no_lease_at_zero [OF assms(2)] show ?thesis by (auto simp: drain_inv_def drain_check_def)
next
  case step_timeout
  with assms(2) no_lease_at_zero [OF assms(2)] show ?thesis by (auto simp: drain_inv_def drain_timeout_def)
qed (auto simp: drain_inv_def set_draining_def report_shutdown_def)

lemma drain_inv_reachable: "drain_step\<^sup>*\<^sup>* s s' \<Longrightarrow> drain_inv s \<Longrightarrow> drain_inv s'"
  by (induction rule: rtranclp_induct) (auto intro: drain_inv_step)

lemma returned_stays:
  assumes "drain_step\<^sup>*\<^sup>* s s'" "drainer s = Returned b"
  shows "drainer s' = Returned b"
  using assms by (induction rule: rtranclp_induct) (auto elim!: drain_step.cases simp: drain_defs)

section \<open>Property\<close>


definition drained :: drain_state where
  "drained = drain_check (report_shutdown (set_draining (initial_drain True)))"


end
