(* ===== verification/Audit_Deduplication.thy ===== *)
theory Audit_Deduplication
  imports Prelude "HOL-Library.AList"
begin

text \<open>
  The deduplication cache of audit ingestion
  (\<open>src/src/audit/ingestion/deduplication_cache.cpp\<close>): shards that hold the events in
  flight and, in order of use, the events committed within the retention window.  The list
  of a shard is a list of nodes and the iterators that the index stores are node names, so
  that the agreement of index and list is something to prove.  A promise is its name; the
  cache records the value each promise was fulfilled with.  Each operation holds the mutex
  of its shard, so it is one step.  The hash of an event id is a parameter.  At the end the
  cache is shown to implement one small state machine per event.
\<close>

unbundle bit_operations_syntax

section \<open>Types\<close>

datatype ingestion_outcome = PersistedNew | DuplicateCommitted | DuplicateCoalesced | IdempotencyConflict
  | ValidationRejected | UnauthorizedProducer | QueueOverloaded | PersistenceFailed | PersistenceAmbiguous

record 'i persist_ack =
  ack_status :: ingestion_outcome
  ack_event_id :: 'i
  ack_received_at :: time_point
  ack_error_code :: string
  ack_diagnostic_message :: string

datatype dedup_decision = AcquiredNewInFlight | CoalescedInFlight | AlreadyCommitted | PayloadConflict

record dedup_acquire_result =
  decision :: dedup_decision
  committed_received_at :: time_point
  in_flight_future :: "nat option"
  primary_promise :: "nat option"

record 'f in_flight_entry =
  fl_fingerprint :: 'f
  fl_promise :: nat

record ('i, 'f) committed_entry =
  ce_event_id :: 'i
  ce_fingerprint :: 'f
  ce_received_at :: time_point
  ce_expires_at :: time_point

record ('i, 'f) cache_shard =
  in_flight_map :: "('i \<times> 'f in_flight_entry) list"
  committed_lru_list :: "(nat \<times> ('i, 'f) committed_entry) list"
  committed_map :: "('i \<times> nat) list"
  next_node :: nat

datatype dedup_metric = Persisted_new | Hits_committed | Hits_inflight_coalesced | Payload_conflicts
  | Evictions_ttl | Evictions_lru | Inflight_rollbacks

record ('i, 'f) dedup_cache =
  shard_capacity :: u32
  cache_ttl :: duration
  shard_mask :: u32
  shards :: "('i, 'f) cache_shard list"
  promises :: "(nat \<times> 'i persist_ack) list"
  next_promise :: nat
  metrics :: "dedup_metric \<Rightarrow> u64"

section \<open>Operations\<close>

text \<open>\<open>std::bit_ceil\<close>: the least power of two that is not below its argument, undefined
  (here \<open>None\<close>) if the type has none.\<close>

definition bit_ceil :: "u32 \<Rightarrow> u32 option" where
  "bit_ceil n = find (\<lambda>p. n \<le> p) (map (\<lambda>k. push_bit k 1) [0..<32])"

definition new_shard :: "('i, 'f) cache_shard" where
  "new_shard = \<lparr> in_flight_map = [], committed_lru_list = [], committed_map = [], next_node = 0 \<rparr>"

definition new_dedup_cache :: "u32 \<Rightarrow> duration \<Rightarrow> u32 \<Rightarrow> ('i, 'f) dedup_cache option" where
  "new_dedup_cache capacity ttl requested =
    (case bit_ceil (if requested = 0 then 1 else requested) of
       None \<Rightarrow> None
     | Some num_shards \<Rightarrow> Some
        (let total_capacity = (if capacity = 0 then 1 else capacity)
         in \<lparr> shard_capacity = max 1 ((total_capacity + num_shards - 1) div num_shards), cache_ttl = ttl,
              shard_mask = num_shards - 1, shards = replicate (unat num_shards) new_shard,
              promises = [], next_promise = 0, metrics = (\<lambda>_. 0) \<rparr>))"

definition get_shard_index :: "('i \<Rightarrow> u64) \<Rightarrow> ('i, 'f) dedup_cache \<Rightarrow> 'i \<Rightarrow> nat" where
  "get_shard_index hash c event_id = unat (hash event_id AND ucast (shard_mask c))"

text \<open>The entry of an event and its node; a name without a node would be a dangling iterator.\<close>

definition find_committed :: "'i \<Rightarrow> ('i, 'f) cache_shard \<Rightarrow> (nat \<times> ('i, 'f) committed_entry) option" where
  "find_committed event_id s = (case map_of (committed_map s) event_id of
     None \<Rightarrow> None
   | Some n \<Rightarrow> map_option (Pair n) (map_of (committed_lru_list s) n))"

definition erase_committed :: "'i \<Rightarrow> nat \<Rightarrow> ('i, 'f) cache_shard \<Rightarrow> ('i, 'f) cache_shard" where
  "erase_committed event_id n s = s\<lparr> committed_lru_list := AList.delete n (committed_lru_list s),
     committed_map := AList.delete event_id (committed_map s) \<rparr>"

definition promote :: "nat \<times> ('i, 'f) committed_entry \<Rightarrow> ('i, 'f) cache_shard \<Rightarrow> ('i, 'f) cache_shard" where
  "promote node s = s\<lparr> committed_lru_list := node # AList.delete (fst node) (committed_lru_list s) \<rparr>"

definition dedup_result :: "dedup_decision \<Rightarrow> dedup_acquire_result" where
  "dedup_result d = \<lparr> decision = d, committed_received_at = 0, in_flight_future = None, primary_promise = None \<rparr>"

text \<open>Steps 2 and 3 of \<open>try_acquire\<close>; \<open>p\<close> is the promise that an unseen event gets.\<close>

definition acquire_in_flight :: "'i \<Rightarrow> 'f \<Rightarrow> nat \<Rightarrow> ('i, 'f) cache_shard
    \<Rightarrow> dedup_acquire_result \<times> dedup_metric list \<times> ('i, 'f) cache_shard" where
  "acquire_in_flight event_id fp p s = (case map_of (in_flight_map s) event_id of
     Some entry \<Rightarrow>
       if fl_fingerprint entry \<noteq> fp then (dedup_result PayloadConflict, [Payload_conflicts], s)
       else ((dedup_result CoalescedInFlight)\<lparr> in_flight_future := Some (fl_promise entry) \<rparr>,
             [Hits_inflight_coalesced], s)
   | None \<Rightarrow>
       ((dedup_result AcquiredNewInFlight)\<lparr> in_flight_future := Some p, primary_promise := Some p \<rparr>, [],
        s\<lparr> in_flight_map := (event_id, \<lparr> fl_fingerprint = fp, fl_promise = p \<rparr>) # in_flight_map s \<rparr>))"

definition shard_try_acquire :: "'i \<Rightarrow> 'f \<Rightarrow> time_point \<Rightarrow> nat \<Rightarrow> ('i, 'f) cache_shard
    \<Rightarrow> dedup_acquire_result \<times> dedup_metric list \<times> ('i, 'f) cache_shard" where
  "shard_try_acquire event_id fp now p s = (case find_committed event_id s of
     Some (n, e) \<Rightarrow>
       if now \<ge> ce_expires_at e
       then (case acquire_in_flight event_id fp p (erase_committed event_id n s) of
               (r, ms, s') \<Rightarrow> (r, Evictions_ttl # ms, s'))
       else if ce_fingerprint e \<noteq> fp then (dedup_result PayloadConflict, [Payload_conflicts], s)
       else ((dedup_result AlreadyCommitted)\<lparr> committed_received_at := ce_received_at e \<rparr>, [Hits_committed],
             promote (n, e) s)
   | None \<Rightarrow> acquire_in_flight event_id fp p s)"

definition count_metrics :: "dedup_metric list \<Rightarrow> ('i, 'f) dedup_cache \<Rightarrow> ('i, 'f) dedup_cache" where
  "count_metrics ms c = c\<lparr> metrics := fold (\<lambda>m f. f(m := f m + 1)) ms (metrics c) \<rparr>"

definition try_acquire :: "('i \<Rightarrow> u64) \<Rightarrow> 'i \<Rightarrow> 'f \<Rightarrow> time_point \<Rightarrow> ('i, 'f) dedup_cache
    \<Rightarrow> dedup_acquire_result \<times> ('i, 'f) dedup_cache" where
  "try_acquire hash event_id fp now c =
    (let i = get_shard_index hash c event_id
     in case shard_try_acquire event_id fp now (next_promise c) (shards c ! i) of
          (r, ms, s) \<Rightarrow> (r, count_metrics ms (c\<lparr> shards := (shards c)[i := s],
            next_promise := (if primary_promise r = None then next_promise c else Suc (next_promise c)) \<rparr>)))"

text \<open>The loop that evicts from the tail of the list; it returns how many entries it dropped.\<close>

function evict_lru :: "nat \<Rightarrow> ('i, 'f) cache_shard \<Rightarrow> nat \<times> ('i, 'f) cache_shard" where
  "evict_lru cap s =
    (if length (committed_map s) > cap \<and> committed_lru_list s \<noteq> []
     then (case evict_lru cap (s\<lparr> committed_map := AList.delete (ce_event_id (snd (last (committed_lru_list s)))) (committed_map s),
                                 committed_lru_list := butlast (committed_lru_list s) \<rparr>) of
             (k, s') \<Rightarrow> (Suc k, s'))
     else (0, s))"
  by pat_completeness auto
termination
  by (relation "measure (\<lambda>(cap, s). length (committed_lru_list s))") auto

declare evict_lru.simps [simp del]

definition shard_commit :: "'i \<Rightarrow> 'f \<Rightarrow> time_point \<Rightarrow> time_point \<Rightarrow> ('i, 'f) cache_shard \<Rightarrow> ('i, 'f) cache_shard" where
  "shard_commit event_id fp received_at expires s =
    (let s1 = s\<lparr> in_flight_map := AList.delete event_id (in_flight_map s) \<rparr>;
         s2 = (case find_committed event_id s1 of Some (n, e) \<Rightarrow> erase_committed event_id n s1 | None \<Rightarrow> s1);
         entry = \<lparr> ce_event_id = event_id, ce_fingerprint = fp, ce_received_at = received_at, ce_expires_at = expires \<rparr>
     in s2\<lparr> committed_lru_list := (next_node s2, entry) # committed_lru_list s2,
            committed_map := AList.update event_id (next_node s2) (committed_map s2),
            next_node := Suc (next_node s2) \<rparr>)"

text \<open>\<open>set_value\<close> throws on a promise that has its value already, and the caller drops the
  exception.\<close>

definition fulfil :: "nat \<Rightarrow> 'i persist_ack \<Rightarrow> ('i, 'f) dedup_cache \<Rightarrow> ('i, 'f) dedup_cache" where
  "fulfil p ack c = (case map_of (promises c) p of
     Some _ \<Rightarrow> c
   | None \<Rightarrow> c\<lparr> promises := (p, ack) # promises c \<rparr>)"

definition mark_committed :: "('i \<Rightarrow> u64) \<Rightarrow> 'i \<Rightarrow> time_point \<Rightarrow> time_point \<Rightarrow> ('i, 'f) dedup_cache
    \<Rightarrow> ('i, 'f) dedup_cache" where
  "mark_committed hash event_id received_at now c =
    (let i = get_shard_index hash c event_id; s = shards c ! i
     in case map_of (in_flight_map s) event_id of
          None \<Rightarrow> c
        | Some entry \<Rightarrow>
           (case evict_lru (unat (shard_capacity c))
                   (shard_commit event_id (fl_fingerprint entry) received_at (now + cache_ttl c) s) of
              (evicted, s') \<Rightarrow>
                fulfil (fl_promise entry)
                  \<lparr> ack_status = DuplicateCoalesced, ack_event_id = event_id, ack_received_at = received_at,
                    ack_error_code = [], ack_diagnostic_message = [] \<rparr>
                  (count_metrics (Persisted_new # replicate evicted Evictions_lru) (c\<lparr> shards := (shards c)[i := s'] \<rparr>))))"

definition rollback_in_flight :: "('i \<Rightarrow> u64) \<Rightarrow> 'i \<Rightarrow> 'i persist_ack \<Rightarrow> ('i, 'f) dedup_cache \<Rightarrow> ('i, 'f) dedup_cache" where
  "rollback_in_flight hash event_id failure c =
    (let i = get_shard_index hash c event_id; s = shards c ! i
     in case map_of (in_flight_map s) event_id of
          None \<Rightarrow> c
        | Some entry \<Rightarrow>
           fulfil (fl_promise entry) failure
             (count_metrics [Inflight_rollbacks]
               (c\<lparr> shards := (shards c)[i := s\<lparr> in_flight_map := AList.delete event_id (in_flight_map s) \<rparr>] \<rparr>)))"

fun evict_shard :: "time_point \<Rightarrow> (nat \<times> ('i, 'f) committed_entry) list \<Rightarrow> ('i \<times> nat) list
    \<Rightarrow> nat \<times> (nat \<times> ('i, 'f) committed_entry) list \<times> ('i \<times> nat) list" where
  "evict_shard now [] m = (0, [], m)"
| "evict_shard now ((n, e) # nodes) m =
    (if now \<ge> ce_expires_at e
     then (case evict_shard now nodes (AList.delete (ce_event_id e) m) of (k, l, m') \<Rightarrow> (Suc k, l, m'))
     else (case evict_shard now nodes m of (k, l, m') \<Rightarrow> (k, (n, e) # l, m')))"

definition shard_evict_expired :: "time_point \<Rightarrow> ('i, 'f) cache_shard \<Rightarrow> nat \<times> ('i, 'f) cache_shard" where
  "shard_evict_expired now s = (case evict_shard now (committed_lru_list s) (committed_map s) of
     (k, l, m) \<Rightarrow> (k, s\<lparr> committed_lru_list := l, committed_map := m \<rparr>))"

definition evict_expired :: "time_point \<Rightarrow> ('i, 'f) dedup_cache \<Rightarrow> nat \<times> ('i, 'f) dedup_cache" where
  "evict_expired now c =
    (let rs = map (shard_evict_expired now) (shards c); total = sum_list (map fst rs)
     in (total, count_metrics (replicate total Evictions_ttl) (c\<lparr> shards := map snd rs \<rparr>)))"

definition in_flight_count :: "('i, 'f) dedup_cache \<Rightarrow> nat" where
  "in_flight_count c = sum_list (map (\<lambda>s. length (in_flight_map s)) (shards c))"

definition committed_count :: "('i, 'f) dedup_cache \<Rightarrow> nat" where
  "committed_count c = sum_list (map (\<lambda>s. length (committed_map s)) (shards c))"

definition cache_size :: "('i, 'f) dedup_cache \<Rightarrow> nat" where
  "cache_size c = sum_list (map (\<lambda>s. length (in_flight_map s) + length (committed_map s)) (shards c))"

section \<open>Well-formed shards\<close>

abbreviation node_key :: "nat \<times> ('i, 'f) committed_entry \<Rightarrow> 'i \<times> nat" where
  "node_key x \<equiv> (ce_event_id (snd x), fst x)"

text \<open>The index holds exactly the nodes of the list, each event has at most one entry, and no
  event is both in flight and committed.\<close>

definition shard_wf :: "('i, 'f) cache_shard \<Rightarrow> bool" where
  "shard_wf s \<longleftrightarrow> mset (committed_map s) = mset (map node_key (committed_lru_list s)) \<and>
    distinct (map fst (committed_map s)) \<and> distinct (map fst (committed_lru_list s)) \<and>
    (\<forall>n \<in> fst ` set (committed_lru_list s). n < next_node s) \<and>
    distinct (map fst (in_flight_map s)) \<and>
    fst ` set (in_flight_map s) \<inter> fst ` set (committed_map s) = {}"


lemma delete_filter: "AList.delete k xs = filter (\<lambda>x. fst x \<noteq> k) xs"
  by (induction xs) auto

lemma update_new: "k \<notin> fst ` set xs \<Longrightarrow> AList.update k v xs = xs @ [(k, v)]"
  by (induction xs) auto

lemma move_to_front:
  assumes "distinct (map fst l)" "(n, e) \<in> set l"
  shows "mset ((n, e) # AList.delete n l) = mset l"
  using assms
proof (induction l)
  case (Cons x l)
  show ?case
  proof (cases "fst x = n")
    case True
    then have "n \<notin> fst ` set l" using Cons.prems(1) by auto
    then have n: "\<forall>y \<in> set l. fst y \<noteq> n" by blast
    then have "x = (n, e)" using Cons.prems(2) by auto
    moreover have "filter (\<lambda>y. fst y \<noteq> n) l = l" using n by (simp add: filter_id_conv)
    ultimately have "x = (n, e)" "filter (\<lambda>y. fst y \<noteq> n) l = l" by simp_all
    then show ?thesis by (simp add: delete_filter)
  next
    case False
    then show ?thesis using Cons by (auto simp: delete_filter)
  qed
qed simp

lemma wf_nodes:
  assumes "shard_wf s"
  shows "mset (committed_map s) = mset (map node_key (committed_lru_list s))"
    "distinct (map fst (committed_map s))" "distinct (map fst (committed_lru_list s))"
  using assms unfolding shard_wf_def by blast+

lemma wf_distinct_events:
  assumes "shard_wf s"
  shows "distinct (map (\<lambda>x. ce_event_id (snd x)) (committed_lru_list s))"
proof -
  have "mset (map fst (committed_map s)) = image_mset fst (mset (map node_key (committed_lru_list s)))"
    unfolding mset_map wf_nodes(1) [OF assms] by (rule refl)
  also have "\<dots> = mset (map (\<lambda>x. ce_event_id (snd x)) (committed_lru_list s))"
    by (simp add: image_mset.compositionality comp_def)
  finally show ?thesis using wf_nodes(2) [OF assms] mset_eq_imp_distinct_iff by blast
qed

lemma wf_index:
  assumes "shard_wf s"
  shows "(i, n) \<in> set (committed_map s) \<longleftrightarrow> (\<exists>e. (n, e) \<in> set (committed_lru_list s) \<and> ce_event_id e = i)"
proof -
  have "set (committed_map s) = set (map node_key (committed_lru_list s))"
    by (rule mset_eq_setD [OF wf_nodes(1) [OF assms]])
  then show ?thesis by (auto intro: rev_image_eqI)
qed

lemma find_committed_Some:
  assumes "shard_wf s"
  shows "find_committed i s = Some (n, e) \<longleftrightarrow> (n, e) \<in> set (committed_lru_list s) \<and> ce_event_id e = i"
proof -
  have d: "distinct (map fst (committed_map s))" "distinct (map fst (committed_lru_list s))"
    using assms by (simp_all add: shard_wf_def)
  have "find_committed i s = Some (n, e) \<longleftrightarrow>
      map_of (committed_map s) i = Some n \<and> map_of (committed_lru_list s) n = Some e"
    by (auto simp: find_committed_def split: option.splits)
  also have "\<dots> \<longleftrightarrow> (i, n) \<in> set (committed_map s) \<and> (n, e) \<in> set (committed_lru_list s)"
    using d by simp
  also have "\<dots> \<longleftrightarrow> (n, e) \<in> set (committed_lru_list s) \<and> ce_event_id e = i"
    using wf_index [OF assms, of i n] eq_key_imp_eq_value [OF d(2), of n e] by auto
  finally show ?thesis .
qed

text \<open>Two well-formed shards with the same nodes answer alike.\<close>

lemma find_committed_cong:
  assumes "shard_wf s" "shard_wf s'"
    and "\<And>n e. ce_event_id e = i \<Longrightarrow> (n, e) \<in> set (committed_lru_list s') \<longleftrightarrow> (n, e) \<in> set (committed_lru_list s)"
  shows "find_committed i s' = find_committed i s"
proof (cases "find_committed i s'")
  case None
  show ?thesis
  proof (cases "find_committed i s")
    case (Some x)
    obtain n e where "x = (n, e)" by fastforce
    with Some find_committed_Some [OF assms(1), of i n e] find_committed_Some [OF assms(2), of i n e] assms(3) None
    show ?thesis by auto
  qed (simp add: None)
next
  case (Some x)
  obtain n e where "x = (n, e)" by fastforce
  with Some find_committed_Some [OF assms(1), of i n e] find_committed_Some [OF assms(2), of i n e] assms(3)
  show ?thesis by auto
qed

text \<open>Dropping the committed entries of some events.\<close>

definition keep_committed :: "('i \<Rightarrow> bool) \<Rightarrow> ('i, 'f) cache_shard \<Rightarrow> ('i, 'f) cache_shard" where
  "keep_committed P s = s\<lparr> committed_lru_list := filter (\<lambda>x. P (ce_event_id (snd x))) (committed_lru_list s),
     committed_map := filter (\<lambda>k. P (fst k)) (committed_map s) \<rparr>"

lemma keep_wf:
  assumes "shard_wf s"
  shows "shard_wf (keep_committed P s)"
proof -
  have "mset (filter (\<lambda>k. P (fst k)) (committed_map s)) = filter_mset (\<lambda>k. P (fst k)) (mset (map node_key (committed_lru_list s)))"
    using assms by (simp add: shard_wf_def mset_filter)
  also have "\<dots> = mset (map node_key (filter (\<lambda>x. P (ce_event_id (snd x))) (committed_lru_list s)))"
    by (simp only: mset_filter [symmetric] filter_map comp_def fst_conv)
  finally show ?thesis
    using assms by (auto simp: shard_wf_def keep_committed_def distinct_map_filter)
qed

lemma keep_find:
  assumes "shard_wf s"
  shows "find_committed i (keep_committed P s) = (if P i then find_committed i s else None)"
proof (cases "P i")
  case True
  then show ?thesis
    using find_committed_cong [OF assms keep_wf [OF assms]] by (simp add: keep_committed_def)
next
  case False
  have "find_committed i (keep_committed P s) \<noteq> Some (n, e)" for n e
    using False find_committed_Some [OF keep_wf [OF assms], of i P n e] by (auto simp: keep_committed_def)
  with False show ?thesis by (cases "find_committed i (keep_committed P s)") auto
qed

lemma keep_simps [simp]:
  "in_flight_map (keep_committed P s) = in_flight_map s" "next_node (keep_committed P s) = next_node s"
  by (simp_all add: keep_committed_def)

lemma find_frame [simp]: "find_committed i (s\<lparr> in_flight_map := m \<rparr>) = find_committed i s"
  by (simp add: find_committed_def split: option.split)

lemma promote_simps [simp]:
  "in_flight_map (promote x s) = in_flight_map s" "committed_map (promote x s) = committed_map s"
  by (simp_all add: promote_def)

lemma keep_length: "length (committed_map (keep_committed P s)) \<le> length (committed_map s)"
  by (simp add: keep_committed_def)

lemma erase_keep:
  assumes "shard_wf s" "find_committed i s = Some (n, e)"
  shows "erase_committed i n s = keep_committed (\<lambda>j. j \<noteq> i) s"
proof -
  have ne: "(n, e) \<in> set (committed_lru_list s)" "ce_event_id e = i"
    using find_committed_Some [OF assms(1)] assms(2) by auto
  have d: "distinct (map fst (committed_lru_list s))" using assms(1) by (simp add: shard_wf_def)
  have "fst x \<noteq> n \<longleftrightarrow> ce_event_id (snd x) \<noteq> i" if "x \<in> set (committed_lru_list s)" for x
    using that ne eq_key_imp_eq_value [OF d] inj_onD [OF distinct_map [THEN iffD1, THEN conjunct2, OF wf_distinct_events [OF assms(1)]], of x "(n, e)"]
    by (metis fst_conv prod.collapse snd_conv)
  then have "filter (\<lambda>x. fst x \<noteq> n) (committed_lru_list s) = filter (\<lambda>x. ce_event_id (snd x) \<noteq> i) (committed_lru_list s)"
    by (intro filter_cong) auto
  then show ?thesis
    by (simp add: erase_committed_def keep_committed_def delete_filter)
qed

lemma promote_wf:
  assumes "shard_wf s" "find_committed i s = Some (n, e)"
  shows "shard_wf (promote (n, e) s)" "find_committed j (promote (n, e) s) = find_committed j s"
proof -
  have ne: "(n, e) \<in> set (committed_lru_list s)" using find_committed_Some [OF assms(1)] assms(2) by auto
  have d: "distinct (map fst (committed_lru_list s))" using assms(1) by (simp add: shard_wf_def)
  have m: "mset (committed_lru_list (promote (n, e) s)) = mset (committed_lru_list s)"
    using move_to_front [OF d ne] by (simp add: promote_def)
  have dist: "distinct (map fst (committed_lru_list (promote (n, e) s)))"
    using d m by (metis mset_eq_imp_distinct_iff mset_map)
  have st: "set (committed_lru_list (promote (n, e) s)) = set (committed_lru_list s)"
    using m by (metis set_mset_mset)
  have "mset (map node_key (committed_lru_list (promote (n, e) s))) = mset (map node_key (committed_lru_list s))"
    using m by simp
  then show wf: "shard_wf (promote (n, e) s)"
    using assms(1) dist st unfolding shard_wf_def by (simp add: promote_def)
  show "find_committed j (promote (n, e) s) = find_committed j s"
    by (rule find_committed_cong [OF assms(1) wf]) (simp add: st)
qed

section \<open>The state of an event\<close>

text \<open>\<open>DedupState\<close> with what the cache remembers in each state, and the transitions that
  the interface of the cache documents.\<close>

datatype 'f dedup_state = Unseen | InFlight 'f nat | Committed 'f time_point time_point

fun spec_acquire :: "'f \<Rightarrow> time_point \<Rightarrow> nat \<Rightarrow> 'f dedup_state \<Rightarrow> dedup_decision \<times> 'f dedup_state" where
  "spec_acquire fp now p Unseen = (AcquiredNewInFlight, InFlight fp p)"
| "spec_acquire fp now p (InFlight f q) = (if f = fp then CoalescedInFlight else PayloadConflict, InFlight f q)"
| "spec_acquire fp now p (Committed f received expires) =
    (if now \<ge> expires then (AcquiredNewInFlight, InFlight fp p)
     else (if f = fp then AlreadyCommitted else PayloadConflict, Committed f received expires))"

definition shard_state :: "('i, 'f) cache_shard \<Rightarrow> 'i \<Rightarrow> 'f dedup_state" where
  "shard_state s i = (case find_committed i s of
     Some (n, e) \<Rightarrow> Committed (ce_fingerprint e) (ce_received_at e) (ce_expires_at e)
   | None \<Rightarrow> (case map_of (in_flight_map s) i of
       Some en \<Rightarrow> InFlight (fl_fingerprint en) (fl_promise en) | None \<Rightarrow> Unseen))"

lemma shard_state_cong:
  "find_committed i s' = find_committed i s \<Longrightarrow> map_of (in_flight_map s') i = map_of (in_flight_map s) i \<Longrightarrow>
    shard_state s' i = shard_state s i"
  by (simp add: shard_state_def split: option.split)

lemma wf_in_flight:
  assumes "shard_wf s" "distinct (map fst m)" "fst ` set m \<inter> fst ` set (committed_map s) = {}"
  shows "shard_wf (s\<lparr> in_flight_map := m \<rparr>)"
  using assms by (simp add: shard_wf_def)

lemma in_flight_not_committed:
  assumes "shard_wf s" "map_of (in_flight_map s) i = Some en"
  shows "find_committed i s = None" "i \<notin> fst ` set (committed_map s)"
proof -
  have "i \<in> fst ` set (in_flight_map s)" using assms(2) by (force dest: map_of_SomeD)
  then show n: "i \<notin> fst ` set (committed_map s)" using assms(1) by (auto simp: shard_wf_def)
  then have "map_of (committed_map s) i = None" by (simp add: map_of_eq_None_iff)
  then show "find_committed i s = None" by (simp add: find_committed_def)
qed

lemma find_none_index:
  assumes "shard_wf s" "find_committed i s = None"
  shows "i \<notin> fst ` set (committed_map s)"
proof
  assume "i \<in> fst ` set (committed_map s)"
  then obtain n e where "(n, e) \<in> set (committed_lru_list s)" "ce_event_id e = i"
    using wf_index [OF assms(1)] by force
  with find_committed_Some [OF assms(1), of i n e] assms(2) show False by simp
qed

lemma keep_state:
  assumes "shard_wf s"
  shows "shard_state (keep_committed P s) i =
    (case shard_state s i of Committed f r e \<Rightarrow> if P i then Committed f r e else Unseen | st \<Rightarrow> st)"
  using in_flight_not_committed [OF assms, of i]
  by (auto simp: shard_state_def keep_find [OF assms] split: option.splits)

text \<open>Acquiring, on an event without a live committed entry.\<close>

lemma acquire_in_flight_ok:
  assumes "shard_wf s" "find_committed i s = None" "acquire_in_flight i fp p s = (r, ms, s')"
  shows "shard_wf s'" "(decision r, shard_state s' i) = spec_acquire fp now p (shard_state s i)"
    and "j \<noteq> i \<Longrightarrow> shard_state s' j = shard_state s j" "committed_map s' = committed_map s"
proof -
  have i: "i \<notin> fst ` set (committed_map s)" by (rule find_none_index [OF assms(1,2)])
  show "shard_wf s'"
  proof (cases "map_of (in_flight_map s) i")
    case None
    then have "i \<notin> fst ` set (in_flight_map s)" by (simp add: map_of_eq_None_iff)
    moreover have "distinct (map fst (in_flight_map s))" "fst ` set (in_flight_map s) \<inter> fst ` set (committed_map s) = {}"
      using assms(1) unfolding shard_wf_def by blast+
    ultimately show ?thesis
      using wf_in_flight [OF assms(1), of "(i, \<lparr> fl_fingerprint = fp, fl_promise = p \<rparr>) # in_flight_map s"] i assms(3) None
      by (simp add: acquire_in_flight_def)
  next
    case (Some en)
    then show ?thesis using assms(1,3) by (auto simp: acquire_in_flight_def split: if_splits)
  qed
  show "(decision r, shard_state s' i) = spec_acquire fp now p (shard_state s i)"
    using assms(2,3) by (auto simp: acquire_in_flight_def shard_state_def dedup_result_def split: option.splits if_splits)
  show "j \<noteq> i \<Longrightarrow> shard_state s' j = shard_state s j" "committed_map s' = committed_map s"
    using assms(3) by (auto simp: acquire_in_flight_def intro: shard_state_cong split: option.splits if_splits)
qed

lemma shard_try_acquire_ok:
  assumes "shard_wf s" "shard_try_acquire i fp now p s = (r, ms, s')"
  shows "shard_wf s' \<and> (decision r, shard_state s' i) = spec_acquire fp now p (shard_state s i) \<and>
    (\<forall>j. j \<noteq> i \<longrightarrow> shard_state s' j = shard_state s j) \<and> length (committed_map s') \<le> length (committed_map s)"
proof (cases "find_committed i s")
  case None
  with assms(2) have "acquire_in_flight i fp p s = (r, ms, s')" by (simp add: shard_try_acquire_def)
  from acquire_in_flight_ok [OF assms(1) None this] show ?thesis by simp
next
  case (Some x)
  obtain n e where x: "find_committed i s = Some (n, e)" using Some by (cases x) auto
  show ?thesis
  proof (cases "now \<ge> ce_expires_at e")
    case True
    let ?k = "keep_committed (\<lambda>j. j \<noteq> i) s"
    obtain ms' where a: "acquire_in_flight i fp p ?k = (r, ms', s')"
      using assms(2) x True erase_keep [OF assms(1) x] by (auto simp: shard_try_acquire_def split: prod.splits)
    have none: "find_committed i ?k = None" by (simp add: keep_find [OF assms(1)])
    have si: "shard_state s i = Committed (ce_fingerprint e) (ce_received_at e) (ce_expires_at e)"
      by (simp add: shard_state_def x)
    have ki: "shard_state ?k i = Unseen" by (simp add: keep_state [OF assms(1)] si)
    have kj: "shard_state ?k j = shard_state s j" if "j \<noteq> i" for j
      using that by (simp add: keep_state [OF assms(1)] split: dedup_state.splits)
    show ?thesis
      using acquire_in_flight_ok [OF keep_wf [OF assms(1)] none a] True
      by (auto simp: si ki kj keep_length)
  next
    case False
    have pj: "shard_state (promote (n, e) s) j = shard_state s j" for j
      by (rule shard_state_cong) (simp_all add: promote_wf(2) [OF assms(1) x])
    show ?thesis
    proof (cases "ce_fingerprint e = fp")
      case True
      then have "s' = promote (n, e) s" "decision r = AlreadyCommitted"
        using assms(2) x False by (auto simp: shard_try_acquire_def dedup_result_def)
      then show ?thesis using promote_wf(1) [OF assms(1) x] False True
        by (simp add: pj) (simp add: shard_state_def x)
    next
      case fp: False
      then have "s' = s" "decision r = PayloadConflict"
        using assms(2) x False by (auto simp: shard_try_acquire_def dedup_result_def)
      then show ?thesis using assms(1) False fp by (simp add: shard_state_def x)
    qed
  qed
qed


section \<open>Committing and evicting\<close>

lemma commit_ok:
  assumes "shard_wf s" "map_of (in_flight_map s) i = Some en"
    and s'_def: "s' = shard_commit i fp rc ex s"
  shows "shard_wf s'" "shard_state s' i = Committed fp rc ex" "j \<noteq> i \<Longrightarrow> shard_state s' j = shard_state s j"
    "length (committed_map s') = Suc (length (committed_map s))" "committed_lru_list s' \<noteq> []"
    "ce_event_id (snd (hd (committed_lru_list s'))) = i"
    "in_flight_map s' = AList.delete i (in_flight_map s)"
proof -
  let ?e = "\<lparr> ce_event_id = i, ce_fingerprint = fp, ce_received_at = rc, ce_expires_at = ex \<rparr>"
  note none = in_flight_not_committed [OF assms(1,2)]
  have up: "AList.update i (next_node s) (committed_map s) = committed_map s @ [(i, next_node s)]"
    by (rule update_new [OF none(2)])
  have eq: "s' = s\<lparr> in_flight_map := AList.delete i (in_flight_map s),
      committed_lru_list := (next_node s, ?e) # committed_lru_list s,
      committed_map := committed_map s @ [(i, next_node s)], next_node := Suc (next_node s) \<rparr>"
    by (simp add: s'_def shard_commit_def none(1) Let_def up)
  show wf: "shard_wf s'"
  proof -
    have "fst ` set (AList.delete i (in_flight_map s)) \<inter> fst ` set (committed_map s @ [(i, next_node s)]) = {}"
      using assms(1) by (auto simp: shard_wf_def delete_filter)
    moreover have "\<forall>n \<in> fst ` set (committed_lru_list s). n < next_node s" "distinct (map fst (in_flight_map s))"
      using assms(1) unfolding shard_wf_def by blast+
    ultimately show ?thesis
      using wf_nodes [OF assms(1)] none(2) unfolding eq shard_wf_def
      by (auto simp: delete_filter distinct_map_filter)
  qed
  show "shard_state s' i = Committed fp rc ex"
    using find_committed_Some [OF wf, of i "next_node s" ?e] by (simp add: shard_state_def eq)
  show "shard_state s' j = shard_state s j" if "j \<noteq> i"
  proof (rule shard_state_cong)
    show "find_committed j s' = find_committed j s"
      by (rule find_committed_cong [OF assms(1) wf]) (use that in \<open>auto simp: eq\<close>)
    show "map_of (in_flight_map s') j = map_of (in_flight_map s) j"
      using that by (simp add: eq delete_conv')
  qed
  show "length (committed_map s') = Suc (length (committed_map s))" "committed_lru_list s' \<noteq> []"
    "ce_event_id (snd (hd (committed_lru_list s'))) = i" "in_flight_map s' = AList.delete i (in_flight_map s)"
    by (simp_all add: eq)
qed


lemma last_keep:
  assumes "shard_wf s" "committed_lru_list s \<noteq> []"
  shows "s\<lparr> committed_map := AList.delete (ce_event_id (snd (last (committed_lru_list s)))) (committed_map s),
      committed_lru_list := butlast (committed_lru_list s) \<rparr> =
    keep_committed (\<lambda>j. j \<noteq> ce_event_id (snd (last (committed_lru_list s)))) s"
proof -
  have "distinct (map (\<lambda>x. ce_event_id (snd x)) (butlast (committed_lru_list s) @ [last (committed_lru_list s)]))"
    using wf_distinct_events [OF assms(1)] assms(2) by simp
  then have "\<forall>x \<in> set (butlast (committed_lru_list s)). ce_event_id (snd x) \<noteq> ce_event_id (snd (last (committed_lru_list s)))"
    by (auto simp: image_iff)
  then have "filter (\<lambda>x. ce_event_id (snd x) \<noteq> ce_event_id (snd (last (committed_lru_list s))))
      (butlast (committed_lru_list s) @ [last (committed_lru_list s)]) = butlast (committed_lru_list s)"
    by simp
  then show ?thesis using assms(2) by (simp add: keep_committed_def delete_filter)
qed

lemma wf_lengths: "shard_wf s \<Longrightarrow> length (committed_map s) = length (committed_lru_list s)"
  using arg_cong [OF wf_nodes(1), of s size] by simp

text \<open>An insertion exceeds the capacity by at most one, so at most the tail is dropped.\<close>

lemma evict_lru_ok:
  assumes "shard_wf s" "length (committed_map s) \<le> Suc cap" "evict_lru cap s = (k, s')"
  shows "s' = s \<and> k = 0 \<and> length (committed_map s) \<le> cap \<or>
    s' = keep_committed (\<lambda>j. j \<noteq> ce_event_id (snd (last (committed_lru_list s)))) s \<and> k = 1 \<and>
    length (committed_map s) = Suc cap \<and> length (committed_map s') = cap"
proof (cases "length (committed_map s) \<le> cap")
  case True
  then show ?thesis using assms(3) by (simp add: evict_lru.simps [of cap s])
next
  case False
  then have len: "length (committed_map s) = Suc cap" using assms(2) by simp
  then have ne: "committed_lru_list s \<noteq> []" using wf_lengths [OF assms(1)] by auto
  let ?k = "keep_committed (\<lambda>j. j \<noteq> ce_event_id (snd (last (committed_lru_list s)))) s"
  have "length (committed_lru_list ?k) = cap"
    using len wf_lengths [OF assms(1)] last_keep [OF assms(1) ne, symmetric] by simp
  then have kl: "length (committed_map ?k) = cap" using wf_lengths [OF keep_wf [OF assms(1)]] by simp
  then have "evict_lru cap ?k = (0, ?k)" by (simp add: evict_lru.simps [of cap ?k])
  then have "evict_lru cap s = (1, ?k)"
    using len ne by (simp add: evict_lru.simps [of cap s] last_keep [OF assms(1) ne])
  then show ?thesis using assms(3) len kl by simp
qed

lemma evict_shard_eq:
  "evict_shard now nodes m = (length (filter (\<lambda>x. now \<ge> ce_expires_at (snd x)) nodes),
     filter (\<lambda>x. \<not> now \<ge> ce_expires_at (snd x)) nodes,
     filter (\<lambda>k. \<forall>x \<in> set nodes. ce_event_id (snd x) = fst k \<longrightarrow> \<not> now \<ge> ce_expires_at (snd x)) m)"
  by (induction now nodes m rule: evict_shard.induct) (auto simp: delete_filter intro!: filter_cong)

lemma evict_expired_keep:
  assumes "shard_wf s"
  shows "snd (shard_evict_expired now s) =
    keep_committed (\<lambda>j. \<forall>x \<in> set (committed_lru_list s). ce_event_id (snd x) = j \<longrightarrow> \<not> now \<ge> ce_expires_at (snd x)) s"
proof -
  have inj: "inj_on (\<lambda>x. ce_event_id (snd x)) (set (committed_lru_list s))"
    using wf_distinct_events [OF assms] by (simp add: distinct_map)
  have "filter (\<lambda>x. \<not> now \<ge> ce_expires_at (snd x)) (committed_lru_list s) =
      filter (\<lambda>x. \<forall>y \<in> set (committed_lru_list s). ce_event_id (snd y) = ce_event_id (snd x) \<longrightarrow> \<not> now \<ge> ce_expires_at (snd y))
        (committed_lru_list s)"
    using inj by (intro filter_cong) (auto dest: inj_onD)
  then show ?thesis by (simp add: shard_evict_expired_def evict_shard_eq keep_committed_def)
qed

lemma evict_expired_ok:
  assumes "shard_wf s" "s' = snd (shard_evict_expired now s)"
  shows "shard_wf s'" "in_flight_map s' = in_flight_map s" "length (committed_map s') \<le> length (committed_map s)"
    "shard_state s' j = (case shard_state s j of Committed f r e \<Rightarrow> if now \<ge> e then Unseen else Committed f r e | st \<Rightarrow> st)"
proof -
  let ?P = "\<lambda>j. \<forall>x \<in> set (committed_lru_list s). ce_event_id (snd x) = j \<longrightarrow> \<not> now \<ge> ce_expires_at (snd x)"
  have eq: "s' = keep_committed ?P s" unfolding assms(2) by (rule evict_expired_keep [OF assms(1)])
  show "shard_wf s'" "in_flight_map s' = in_flight_map s" "length (committed_map s') \<le> length (committed_map s)"
    unfolding eq by (simp_all add: keep_wf [OF assms(1)] keep_length)
  have "?P j \<longleftrightarrow> \<not> now \<ge> ce_expires_at e" if "find_committed j s = Some (n, e)" for n e
  proof -
    have ne: "(n, e) \<in> set (committed_lru_list s)" "ce_event_id e = j"
      using find_committed_Some [OF assms(1)] that by auto
    have "x = (n, e)" if "x \<in> set (committed_lru_list s)" "ce_event_id (snd x) = j" for x
      using wf_distinct_events [OF assms(1)] that ne unfolding distinct_map
      by (intro inj_onD [of "\<lambda>x. ce_event_id (snd x)" _ x "(n, e)"]) auto
    with ne show ?thesis by force
  qed
  then show "shard_state s' j = (case shard_state s j of Committed f r e \<Rightarrow> if now \<ge> e then Unseen else Committed f r e | st \<Rightarrow> st)"
    unfolding eq keep_state [OF assms(1)]
    by (cases "find_committed j s") (auto simp: shard_state_def split: option.splits)
qed


section \<open>The cache\<close>

definition cache_state :: "('i \<Rightarrow> u64) \<Rightarrow> ('i, 'f) dedup_cache \<Rightarrow> 'i \<Rightarrow> 'f dedup_state" where
  "cache_state hash c i = shard_state (shards c ! get_shard_index hash c i) i"

definition shards_wf :: "('i, 'f) dedup_cache \<Rightarrow> bool" where
  "shards_wf c \<longleftrightarrow> length (shards c) = Suc (unat (shard_mask c)) \<and> 0 < unat (shard_capacity c) \<and>
    (\<forall>s \<in> set (shards c). shard_wf s \<and> length (committed_map s) \<le> unat (shard_capacity c))"

text \<open>The promise of an event in flight is its own and has no value yet.\<close>

definition promises_wf :: "('i \<Rightarrow> u64) \<Rightarrow> ('i, 'f) dedup_cache \<Rightarrow> bool" where
  "promises_wf hash c \<longleftrightarrow> (\<forall>p \<in> fst ` set (promises c). p < next_promise c) \<and>
    (\<forall>i f p. cache_state hash c i = InFlight f p \<longrightarrow> p < next_promise c \<and> p \<notin> fst ` set (promises c) \<and>
      (\<forall>j g. cache_state hash c j = InFlight g p \<longrightarrow> j = i))"

definition cache_wf :: "('i \<Rightarrow> u64) \<Rightarrow> ('i, 'f) dedup_cache \<Rightarrow> bool" where
  "cache_wf hash c \<longleftrightarrow> shards_wf c \<and> promises_wf hash c"

lemma unat_widen: "unat (ucast (x :: u32) :: u64) = unat x"
  by transfer (simp add: take_bit_take_bit)

lemma shard_index_bound:
  assumes "shards_wf c"
  shows "get_shard_index hash c i < length (shards c)"
proof -
  have "hash i AND ucast (shard_mask c) \<le> ucast (shard_mask c)" by (rule word_and_le1)
  then have "unat (hash i AND ucast (shard_mask c)) \<le> unat (ucast (shard_mask c) :: u64)"
    by (simp add: word_le_nat_alt)
  also have "\<dots> = unat (shard_mask c)" by (rule unat_widen)
  finally show ?thesis using assms by (simp add: get_shard_index_def shards_wf_def)
qed

lemma shard_of_wf:
  assumes "shards_wf c"
  shows "shard_wf (shards c ! get_shard_index hash c i)"
    "length (committed_map (shards c ! get_shard_index hash c i)) \<le> unat (shard_capacity c)"
  using assms nth_mem [OF shard_index_bound [OF assms]] unfolding shards_wf_def by blast+

text \<open>Replacing the shard of an event.\<close>

lemma replace_shard:
  assumes "shards_wf c" "shard_wf s'" "length (committed_map s') \<le> unat (shard_capacity c)"
    and "shards c' = (shards c)[get_shard_index hash c i := s']"
    and "shard_mask c' = shard_mask c" "shard_capacity c' = shard_capacity c"
  shows "shards_wf c'" "cache_state hash c' j =
    (if get_shard_index hash c j = get_shard_index hash c i then shard_state s' j else cache_state hash c j)"
proof -
  show "shards_wf c'"
    using assms set_update_subset_insert [of "shards c" "get_shard_index hash c i" s']
    by (auto simp: shards_wf_def)
  have "get_shard_index hash c' = get_shard_index hash c" using assms(5) by (simp add: get_shard_index_def fun_eq_iff)
  then show "cache_state hash c' j =
    (if get_shard_index hash c j = get_shard_index hash c i then shard_state s' j else cache_state hash c j)"
    using shard_index_bound [OF assms(1)] by (simp add: cache_state_def assms(4))
qed

lemma replace_shard_state:
  assumes "shards_wf c" "shard_wf s'" "length (committed_map s') \<le> unat (shard_capacity c)"
    and "shards c' = (shards c)[get_shard_index hash c i := s']"
    and "shard_mask c' = shard_mask c" "shard_capacity c' = shard_capacity c"
    and "\<And>j. j \<noteq> i \<Longrightarrow> shard_state s' j = shard_state (shards c ! get_shard_index hash c i) j"
  shows "cache_state hash c' i = shard_state s' i" "j \<noteq> i \<Longrightarrow> cache_state hash c' j = cache_state hash c j"
  using replace_shard(2) [OF assms(1-6), of i] replace_shard(2) [OF assms(1-6), of j] assms(7) [of j]
  by (auto simp: cache_state_def)

lemma count_metrics_simps [simp]:
  "shards (count_metrics ms c) = shards c" "shard_mask (count_metrics ms c) = shard_mask c"
  "shard_capacity (count_metrics ms c) = shard_capacity c" "promises (count_metrics ms c) = promises c"
  "next_promise (count_metrics ms c) = next_promise c" "cache_ttl (count_metrics ms c) = cache_ttl c"
  by (simp_all add: count_metrics_def)

lemma fulfil_simps [simp]:
  "shards (fulfil p a c) = shards c" "shard_mask (fulfil p a c) = shard_mask c"
  "shard_capacity (fulfil p a c) = shard_capacity c" "next_promise (fulfil p a c) = next_promise c"
  "cache_ttl (fulfil p a c) = cache_ttl c"
  by (simp_all add: fulfil_def split: option.splits)

lemma fulfil_new: "p \<notin> fst ` set (promises c) \<Longrightarrow> promises (fulfil p a c) = (p, a) # promises c"
  by (simp add: fulfil_def map_of_eq_None_iff [symmetric])

lemma acquire_result:
  assumes "shard_try_acquire i fp now p s = (r, ms, s')"
  shows "primary_promise r = (if decision r = AcquiredNewInFlight then Some p else None)"
    "decision r = AcquiredNewInFlight \<Longrightarrow> in_flight_future r = Some p"
    "decision r = CoalescedInFlight \<Longrightarrow> \<exists>en. map_of (in_flight_map s) i = Some en \<and> in_flight_future r = Some (fl_promise en)"
    "decision r = AlreadyCommitted \<Longrightarrow> \<exists>n e. find_committed i s = Some (n, e) \<and> committed_received_at r = ce_received_at e"
  using assms
  by (auto simp: shard_try_acquire_def acquire_in_flight_def dedup_result_def erase_committed_def
      split: option.splits if_splits prod.splits)


text \<open>Each operation implements a step of the state machine of its event.\<close>

lemma try_acquire_step:
  assumes "shards_wf c" "try_acquire hash i fp now c = (r, c')"
  shows "shards_wf c'" "(decision r, cache_state hash c' i) = spec_acquire fp now (next_promise c) (cache_state hash c i)"
    "j \<noteq> i \<Longrightarrow> cache_state hash c' j = cache_state hash c j" "promises c' = promises c"
    "next_promise c' = (if decision r = AcquiredNewInFlight then Suc (next_promise c) else next_promise c)"
    "cache_ttl c' = cache_ttl c"
proof -
  let ?k = "get_shard_index hash c i"
  obtain ms s' where s': "shard_try_acquire i fp now (next_promise c) (shards c ! ?k) = (r, ms, s')"
    and c': "c' = count_metrics ms (c\<lparr> shards := (shards c)[?k := s'],
      next_promise := (if primary_promise r = None then next_promise c else Suc (next_promise c)) \<rparr>)"
    using assms(2) by (auto simp: try_acquire_def Let_def split: prod.splits)
  note ok = shard_try_acquire_ok [OF shard_of_wf(1) [OF assms(1)] s']
  have len: "length (committed_map s') \<le> unat (shard_capacity c)"
    using ok shard_of_wf(2) [OF assms(1), of hash i] by simp
  have wf: "shard_wf s'" using ok by simp
  have sh: "shards c' = (shards c)[?k := s']" "shard_mask c' = shard_mask c" "shard_capacity c' = shard_capacity c"
    by (simp_all add: c')
  have other: "shard_state s' j = shard_state (shards c ! ?k) j" if "j \<noteq> i" for j using ok that by simp
  note rep = replace_shard_state [OF assms(1) wf len sh other]
  show "shards_wf c'" by (rule replace_shard(1) [OF assms(1) wf len sh])
  show "(decision r, cache_state hash c' i) = spec_acquire fp now (next_promise c) (cache_state hash c i)"
    using ok rep(1) by (simp add: cache_state_def)
  show "j \<noteq> i \<Longrightarrow> cache_state hash c' j = cache_state hash c j" by (rule rep(2))
  show "promises c' = promises c" "cache_ttl c' = cache_ttl c" by (simp_all add: c')
  show "next_promise c' = (if decision r = AcquiredNewInFlight then Suc (next_promise c) else next_promise c)"
    using acquire_result(1) [OF s'] by (simp add: c')
qed

lemma state_in_flight:
  assumes "shards_wf c"
  shows "map_of (in_flight_map (shards c ! get_shard_index hash c i)) i = Some en \<Longrightarrow>
      cache_state hash c i = InFlight (fl_fingerprint en) (fl_promise en)"
    and "map_of (in_flight_map (shards c ! get_shard_index hash c i)) i = None \<Longrightarrow> cache_state hash c i \<noteq> InFlight f p"
  using in_flight_not_committed [OF shard_of_wf(1) [OF assms], of hash i i en]
  by (auto simp: cache_state_def shard_state_def split: option.splits)

lemma rollback_step:
  assumes "shards_wf c" "c' = rollback_in_flight hash i a c"
  shows "shards_wf c'" "cache_state hash c' i = (case cache_state hash c i of InFlight f p \<Rightarrow> Unseen | st \<Rightarrow> st)"
    "j \<noteq> i \<Longrightarrow> cache_state hash c' j = cache_state hash c j" "next_promise c' = next_promise c"
    "promises c' = (case cache_state hash c i of InFlight f p \<Rightarrow> promises (fulfil p a c) | _ \<Rightarrow> promises c)"
proof -
  let ?k = "get_shard_index hash c i"
  let ?s = "shards c ! ?k"
  let ?s' = "?s\<lparr> in_flight_map := AList.delete i (in_flight_map ?s) \<rparr>"
  have all: "shards_wf c' \<and> cache_state hash c' i = (case cache_state hash c i of InFlight f p \<Rightarrow> Unseen | st \<Rightarrow> st) \<and>
    (\<forall>j. j \<noteq> i \<longrightarrow> cache_state hash c' j = cache_state hash c j) \<and> next_promise c' = next_promise c \<and>
    promises c' = (case cache_state hash c i of InFlight f p \<Rightarrow> promises (fulfil p a c) | _ \<Rightarrow> promises c)"
  proof (cases "map_of (in_flight_map ?s) i")
    case None
    then have "c' = c" using assms(2) by (simp add: rollback_in_flight_def Let_def)
    with assms(1) state_in_flight(2) [OF assms(1) None] show ?thesis by (auto split: dedup_state.splits)
  next
    case (Some en)
    note wf = shard_of_wf [OF assms(1), of hash i]
    note st = state_in_flight(1) [OF assms(1) Some]
    have c': "c' = fulfil (fl_promise en) a (count_metrics [Inflight_rollbacks] (c\<lparr> shards := (shards c)[?k := ?s'] \<rparr>))"
      using assms(2) Some by (simp add: rollback_in_flight_def Let_def)
    have wf': "shard_wf ?s'"
      using wf(1) by (intro wf_in_flight) (auto simp: shard_wf_def delete_filter distinct_map_filter)
    have len: "length (committed_map ?s') \<le> unat (shard_capacity c)" using wf(2) by simp
    have sh: "shards c' = (shards c)[?k := ?s']" "shard_mask c' = shard_mask c" "shard_capacity c' = shard_capacity c"
      by (simp_all add: c')
    have other: "shard_state ?s' j = shard_state ?s j" if "j \<noteq> i" for j
      using that by (intro shard_state_cong) (simp_all add: delete_conv')
    have "shard_state ?s' i = Unseen"
      using in_flight_not_committed(1) [OF wf(1) Some] by (simp add: shard_state_def delete_conv')
    with replace_shard_state [OF assms(1) wf' len sh other] replace_shard(1) [OF assms(1) wf' len sh] st
    show ?thesis by (simp add: c' fulfil_def split: option.splits)
  qed
  show "shards_wf c'" "cache_state hash c' i = (case cache_state hash c i of InFlight f p \<Rightarrow> Unseen | st \<Rightarrow> st)"
    "j \<noteq> i \<Longrightarrow> cache_state hash c' j = cache_state hash c j" "next_promise c' = next_promise c"
    "promises c' = (case cache_state hash c i of InFlight f p \<Rightarrow> promises (fulfil p a c) | _ \<Rightarrow> promises c)"
    using all by blast+
qed


lemma last_not_head:
  assumes "shard_wf s" "Suc 0 < length (committed_lru_list s)"
  shows "ce_event_id (snd (last (committed_lru_list s))) \<noteq> ce_event_id (snd (hd (committed_lru_list s)))"
proof -
  obtain x xs where l: "committed_lru_list s = x # xs" "xs \<noteq> []"
    using assms(2) by (cases "committed_lru_list s") auto
  have "ce_event_id (snd x) \<notin> (\<lambda>x. ce_event_id (snd x)) ` set xs"
    using wf_distinct_events [OF assms(1)] l(1) by simp
  moreover have "ce_event_id (snd (last xs)) \<in> (\<lambda>x. ce_event_id (snd x)) ` set xs"
    using last_in_set [OF l(2)] by (rule imageI)
  ultimately have "ce_event_id (snd (last xs)) \<noteq> ce_event_id (snd x)" by metis
  then show ?thesis using l by simp
qed

lemma commit_evict_ok:
  assumes "shard_wf s" "map_of (in_flight_map s) i = Some en" "length (committed_map s) \<le> cap" "0 < cap"
    and "evict_lru cap (shard_commit i fp rc ex s) = (k, s')"
  shows "shard_wf s'" "length (committed_map s') \<le> cap" "shard_state s' i = Committed fp rc ex"
    "j \<noteq> i \<Longrightarrow> shard_state s' j = shard_state s j \<or> (\<exists>f r e. shard_state s j = Committed f r e) \<and> shard_state s' j = Unseen"
proof -
  let ?t = "shard_commit i fp rc ex s"
  let ?x = "ce_event_id (snd (last (committed_lru_list ?t)))"
  note ok = commit_ok [OF assms(1,2) refl, where fp = fp and rc = rc and ex = ex]
  have "length (committed_map ?t) \<le> Suc cap" using ok(4) assms(3) by simp
  from evict_lru_ok [OF ok(1) this assms(5)]
  consider "s' = ?t" "length (committed_map ?t) \<le> cap"
    | "s' = keep_committed (\<lambda>j. j \<noteq> ?x) ?t" "length (committed_map ?t) = Suc cap" "length (committed_map s') = cap"
    by blast
  then have "shard_wf s' \<and> length (committed_map s') \<le> cap \<and> shard_state s' i = Committed fp rc ex \<and>
    (j \<noteq> i \<longrightarrow> shard_state s' j = shard_state s j \<or> (\<exists>f r e. shard_state s j = Committed f r e) \<and> shard_state s' j = Unseen)"
  proof cases
    case 1
    then show ?thesis using ok by simp
  next
    case 2
    have "Suc 0 < length (committed_lru_list ?t)" using 2(2) assms(4) wf_lengths [OF ok(1)] by simp
    then have "i \<noteq> ?x" using last_not_head [OF ok(1)] ok(6) by simp
    then show ?thesis
      using 2(1,3) keep_wf [OF ok(1)] ok(2) ok(3) [of j] by (auto simp: keep_state [OF ok(1)] split: dedup_state.splits)
  qed
  then show "shard_wf s'" "length (committed_map s') \<le> cap" "shard_state s' i = Committed fp rc ex"
    "j \<noteq> i \<Longrightarrow> shard_state s' j = shard_state s j \<or> (\<exists>f r e. shard_state s j = Committed f r e) \<and> shard_state s' j = Unseen"
    by blast+
qed

abbreviation coalesced_ack :: "'i \<Rightarrow> time_point \<Rightarrow> 'i persist_ack" where
  "coalesced_ack i rc \<equiv> \<lparr> ack_status = DuplicateCoalesced, ack_event_id = i, ack_received_at = rc,
     ack_error_code = [], ack_diagnostic_message = [] \<rparr>"

lemma mark_committed_step:
  assumes "shards_wf c" "c' = mark_committed hash i rc now c"
  shows "shards_wf c'" "next_promise c' = next_promise c"
    "cache_state hash c' i = (case cache_state hash c i of InFlight f p \<Rightarrow> Committed f rc (now + cache_ttl c) | st \<Rightarrow> st)"
    "j \<noteq> i \<Longrightarrow> cache_state hash c' j = cache_state hash c j \<or>
      (\<exists>f r e. cache_state hash c j = Committed f r e) \<and> cache_state hash c' j = Unseen"
    "promises c' = (case cache_state hash c i of InFlight f p \<Rightarrow> promises (fulfil p (coalesced_ack i rc) c) | _ \<Rightarrow> promises c)"
proof -
  let ?k = "get_shard_index hash c i"
  let ?s = "shards c ! ?k"
  have "shards_wf c' \<and> next_promise c' = next_promise c \<and>
    cache_state hash c' i = (case cache_state hash c i of InFlight f p \<Rightarrow> Committed f rc (now + cache_ttl c) | st \<Rightarrow> st) \<and>
    (j \<noteq> i \<longrightarrow> cache_state hash c' j = cache_state hash c j \<or>
      (\<exists>f r e. cache_state hash c j = Committed f r e) \<and> cache_state hash c' j = Unseen) \<and>
    promises c' = (case cache_state hash c i of InFlight f p \<Rightarrow> promises (fulfil p (coalesced_ack i rc) c) | _ \<Rightarrow> promises c)"
  proof (cases "map_of (in_flight_map ?s) i")
    case None
    then have "c' = c" using assms(2) by (simp add: mark_committed_def Let_def)
    with assms(1) state_in_flight(2) [OF assms(1) None] show ?thesis by (auto split: dedup_state.splits)
  next
    case (Some en)
    obtain k s' where ev: "evict_lru (unat (shard_capacity c)) (shard_commit i (fl_fingerprint en) rc (now + cache_ttl c) ?s) = (k, s')"
      by fastforce
    have c': "c' = fulfil (fl_promise en) (coalesced_ack i rc)
        (count_metrics (Persisted_new # replicate k Evictions_lru) (c\<lparr> shards := (shards c)[?k := s'] \<rparr>))"
      using assms(2) Some ev by (simp add: mark_committed_def Let_def)
    note wf = shard_of_wf [OF assms(1), of hash i]
    have cap: "0 < unat (shard_capacity c)" using assms(1) by (simp add: shards_wf_def)
    note ok = commit_evict_ok [OF wf(1) Some wf(2) cap ev]
    have sh: "shards c' = (shards c)[?k := s']" "shard_mask c' = shard_mask c" "shard_capacity c' = shard_capacity c"
      by (simp_all add: c')
    note rep = replace_shard [OF assms(1) ok(1,2) sh]
    have "promises c' = promises (fulfil (fl_promise en) (coalesced_ack i rc) c)"
      by (simp add: c' fulfil_def split: option.splits)
    then show ?thesis
      using rep(1) rep(2) [of i] rep(2) [of j] ok(3) ok(4) [of j] state_in_flight(1) [OF assms(1) Some]
      by (auto simp: c' cache_state_def)
  qed
  then show "shards_wf c'" "next_promise c' = next_promise c"
    "cache_state hash c' i = (case cache_state hash c i of InFlight f p \<Rightarrow> Committed f rc (now + cache_ttl c) | st \<Rightarrow> st)"
    "j \<noteq> i \<Longrightarrow> cache_state hash c' j = cache_state hash c j \<or>
      (\<exists>f r e. cache_state hash c j = Committed f r e) \<and> cache_state hash c' j = Unseen"
    "promises c' = (case cache_state hash c i of InFlight f p \<Rightarrow> promises (fulfil p (coalesced_ack i rc) c) | _ \<Rightarrow> promises c)"
    by blast+
qed

lemma evict_expired_step:
  assumes "shards_wf c" "c' = snd (evict_expired now c)"
  shows "shards_wf c'" "next_promise c' = next_promise c" "promises c' = promises c"
    "cache_state hash c' j = (case cache_state hash c j of Committed f r e \<Rightarrow> if now \<ge> e then Unseen else Committed f r e | st \<Rightarrow> st)"
proof -
  have c': "shards c' = map (\<lambda>s. snd (shard_evict_expired now s)) (shards c)" "shard_mask c' = shard_mask c"
    "shard_capacity c' = shard_capacity c"
    using assms(2) by (simp_all add: evict_expired_def Let_def comp_def)
  show "next_promise c' = next_promise c" "promises c' = promises c"
    using assms(2) by (simp_all add: evict_expired_def Let_def)
  have each: "shard_wf (snd (shard_evict_expired now s)) \<and>
      length (committed_map (snd (shard_evict_expired now s))) \<le> unat (shard_capacity c)" if "s \<in> set (shards c)" for s
  proof -
    have "shard_wf s" "length (committed_map s) \<le> unat (shard_capacity c)" using assms(1) that by (auto simp: shards_wf_def)
    with evict_expired_ok(1,3) [OF this(1) refl, of now] show ?thesis by simp
  qed
  show "shards_wf c'" using assms(1) each by (auto simp: shards_wf_def c')
  have idx: "get_shard_index hash c' j = get_shard_index hash c j" by (simp add: get_shard_index_def c')
  show "cache_state hash c' j = (case cache_state hash c j of Committed f r e \<Rightarrow> if now \<ge> e then Unseen else Committed f r e | st \<Rightarrow> st)"
    using evict_expired_ok(4) [OF shard_of_wf(1) [OF assms(1)] refl] shard_index_bound [OF assms(1)]
    by (simp add: cache_state_def idx c'(1))
qed


section \<open>Runs of the cache\<close>

datatype ('i, 'f) dedup_op = Try_acquire 'i 'f time_point | Mark_committed 'i time_point time_point
  | Rollback 'i "'i persist_ack" | Evict_expired time_point

fun dedup_step :: "('i \<Rightarrow> u64) \<Rightarrow> ('i, 'f) dedup_op \<Rightarrow> ('i, 'f) dedup_cache \<Rightarrow> ('i, 'f) dedup_cache" where
  "dedup_step hash (Try_acquire i fp now) c = snd (try_acquire hash i fp now c)"
| "dedup_step hash (Mark_committed i rc now) c = mark_committed hash i rc now c"
| "dedup_step hash (Rollback i a) c = rollback_in_flight hash i a c"
| "dedup_step hash (Evict_expired now) c = snd (evict_expired now c)"

definition run_dedup :: "('i \<Rightarrow> u64) \<Rightarrow> ('i, 'f) dedup_op list \<Rightarrow> ('i, 'f) dedup_cache \<Rightarrow> ('i, 'f) dedup_cache" where
  "run_dedup hash ops c = fold (dedup_step hash) ops c"

lemma promises_wf_shrink:
  assumes "promises_wf hash c" "next_promise c' = next_promise c" "promises c' = promises c"
    and "\<And>j f p. cache_state hash c' j = InFlight f p \<Longrightarrow> cache_state hash c j = InFlight f p"
  shows "promises_wf hash c'"
  using assms unfolding promises_wf_def by metis

text \<open>An event leaves the flight and its promise gets a value.\<close>

lemma promises_wf_settle:
  assumes "promises_wf hash c" "next_promise c' = next_promise c" "cache_state hash c i = InFlight f p"
    and "promises c' = promises (fulfil p a c)" "\<And>g q. cache_state hash c' i \<noteq> InFlight g q"
    and "\<And>j g q. j \<noteq> i \<Longrightarrow> cache_state hash c' j = InFlight g q \<Longrightarrow> cache_state hash c j = InFlight g q"
  shows "promises_wf hash c'"
proof -
  have p: "p < next_promise c" "p \<notin> fst ` set (promises c)" "\<And>j g. cache_state hash c j = InFlight g p \<Longrightarrow> j = i"
    using assms(1,3) unfolding promises_wf_def by blast+
  have ps: "promises c' = (p, a) # promises c" using assms(4) fulfil_new [OF p(2)] by simp
  have old: "j \<noteq> i \<and> cache_state hash c j = InFlight g q" if "cache_state hash c' j = InFlight g q" for j g q
    using assms(5,6) that by metis
  have "q < next_promise c \<and> q \<noteq> p \<and> q \<notin> fst ` set (promises c) \<and> (\<forall>j' g'. cache_state hash c' j' = InFlight g' q \<longrightarrow> j' = j)"
    if "cache_state hash c' j = InFlight g q" for j g q
  proof -
    have j: "j \<noteq> i" "cache_state hash c j = InFlight g q" using old [OF that] by auto
    then have "q \<noteq> p" using p(3) by blast
    moreover have "q < next_promise c \<and> q \<notin> fst ` set (promises c) \<and> (\<forall>j' g'. cache_state hash c j' = InFlight g' q \<longrightarrow> j' = j)"
      using assms(1) j(2) unfolding promises_wf_def by blast
    ultimately show ?thesis using old by blast
  qed
  moreover have "\<forall>q \<in> fst ` set (promises c). q < next_promise c" using assms(1) unfolding promises_wf_def by blast
  ultimately show ?thesis using p(1) unfolding promises_wf_def ps assms(2) by auto
qed

lemma promises_wf_acquire:
  assumes "promises_wf hash c" "shards_wf c" "try_acquire hash i fp now c = (r, c')"
  shows "promises_wf hash c'"
proof (cases "decision r = AcquiredNewInFlight")
  case True
  note st = try_acquire_step [OF assms(2,3)]
  have i: "cache_state hash c' i = InFlight fp (next_promise c)"
    using st(2) True by (cases "cache_state hash c i") (auto split: if_splits)
  have old: "p < next_promise c \<and> p \<notin> fst ` set (promises c) \<and> (\<forall>k g. cache_state hash c k = InFlight g p \<longrightarrow> k = j)"
    if "cache_state hash c j = InFlight f p" for j f p
    using assms(1) that unfolding promises_wf_def by blast
  have lt: "\<forall>p \<in> fst ` set (promises c). p < next_promise c" using assms(1) unfolding promises_wf_def by blast
  have "p < Suc (next_promise c) \<and> p \<notin> fst ` set (promises c) \<and> (\<forall>k g. cache_state hash c' k = InFlight g p \<longrightarrow> k = j)"
    if "cache_state hash c' j = InFlight f p" for j f p
  proof (cases "j = i")
    case True
    then have p: "p = next_promise c" using that i by simp
    moreover have "k = i" if "cache_state hash c' k = InFlight g p" for k g
    proof (rule ccontr)
      assume "k \<noteq> i"
      then have "cache_state hash c k = InFlight g p" using st(3) that by simp
      then show False using old p by blast
    qed
    ultimately show ?thesis using lt True by auto
  next
    case False
    then have o: "cache_state hash c j = InFlight f p" using st(3) that by simp
    have "k = j" if "cache_state hash c' k = InFlight g p" for k g
    proof (cases "k = i")
      case True
      then show ?thesis using i that old [OF o] by auto
    next
      case False
      then show ?thesis using st(3) that old [OF o] by metis
    qed
    then show ?thesis using old [OF o] by auto
  qed
  then show ?thesis using lt True unfolding promises_wf_def st(4,5) by (auto simp: less_Suc_eq)
next
  case False
  note st = try_acquire_step [OF assms(2,3)]
  have "cache_state hash c' i = cache_state hash c i"
    using st(2) False by (cases "cache_state hash c i") (auto split: if_splits)
  then have "cache_state hash c' j = cache_state hash c j" for j using st(3) by (cases "j = i") auto
  then show ?thesis using promises_wf_shrink [OF assms(1), of c'] st(4,5) False by simp
qed

lemma cache_wf_step:
  assumes "cache_wf hash c"
  shows "cache_wf hash (dedup_step hash op c)"
proof -
  have wf: "shards_wf c" "promises_wf hash c" using assms by (simp_all add: cache_wf_def)
  show ?thesis
  proof (cases op)
    case (Try_acquire i fp now)
    obtain r c' where t: "try_acquire hash i fp now c = (r, c')" by fastforce
    with try_acquire_step(1) [OF wf(1) t] promises_wf_acquire [OF wf(2,1) t] Try_acquire show ?thesis
      by (simp add: cache_wf_def)
  next
    case (Mark_committed i rc now)
    note st = mark_committed_step [OF wf(1) refl, where hash = hash and i = i and rc = rc and now = now]
    have other: "cache_state hash c j = InFlight g q"
      if "j \<noteq> i" "cache_state hash (mark_committed hash i rc now c) j = InFlight g q" for j g q
      using st(4) [OF that(1)] that(2) by auto
    have "promises_wf hash (mark_committed hash i rc now c)"
    proof (cases "\<exists>f p. cache_state hash c i = InFlight f p")
      case True
      then obtain f p where fp: "cache_state hash c i = InFlight f p" by blast
      show ?thesis by (rule promises_wf_settle [OF wf(2) st(2) fp _ _ other]) (simp_all add: st(3,5) fp)
    next
      case False
      then have same: "cache_state hash (mark_committed hash i rc now c) i = cache_state hash c i"
        "promises (mark_committed hash i rc now c) = promises c"
        using st(3,5) by (auto split: dedup_state.splits)
      show ?thesis by (rule promises_wf_shrink [OF wf(2) st(2) same(2)]) (use same(1) other in metis)
    qed
    with st(1) Mark_committed show ?thesis by (simp add: cache_wf_def)
  next
    case (Rollback i a)
    note st = rollback_step [OF wf(1) refl, where hash = hash and i = i and a = a]
    have "promises_wf hash (rollback_in_flight hash i a c)"
    proof (cases "\<exists>f p. cache_state hash c i = InFlight f p")
      case True
      then obtain f p where fp: "cache_state hash c i = InFlight f p" by blast
      show ?thesis by (rule promises_wf_settle [OF wf(2) st(4) fp]) (simp_all add: st(2,3,5) fp)
    next
      case False
      then have same: "cache_state hash (rollback_in_flight hash i a c) i = cache_state hash c i"
        "promises (rollback_in_flight hash i a c) = promises c"
        using st(2,5) by (auto split: dedup_state.splits)
      show ?thesis by (rule promises_wf_shrink [OF wf(2) st(4) same(2)]) (use same(1) st(3) in metis)
    qed
    with st(1) Rollback show ?thesis by (simp add: cache_wf_def)
  next
    case (Evict_expired now)
    note st = evict_expired_step [OF wf(1) refl, where now = now]
    have "promises_wf hash (snd (evict_expired now c))"
      by (rule promises_wf_shrink [OF wf(2) st(2,3)]) (auto simp: st(4) split: dedup_state.splits if_splits)
    with st(1) Evict_expired show ?thesis by (simp add: cache_wf_def)
  qed
qed

lemma bit_ceil_pos: "bit_ceil n = Some k \<Longrightarrow> k \<noteq> 0"
  by (auto simp: bit_ceil_def find_Some_iff push_bit_eq_mult nth_append)

lemma new_dedup_cache_wf:
  assumes "new_dedup_cache capacity ttl requested = Some c"
  shows "cache_wf hash c"
proof -
  obtain k where k: "bit_ceil (if requested = 0 then 1 else requested) = Some k"
    using assms by (auto simp: new_dedup_cache_def split: option.splits)
  have "unat k \<noteq> 0" using bit_ceil_pos [OF k] by (simp add: unat_gt_0)
  then have mask: "unat k = Suc (unat (k - 1))" using unat_dec [of k] by (simp add: unat_gt_0)
  have "0 < max 1 (x :: u32)" for x by (simp add: less_max_iff_disj)
  then have cap: "0 < unat (max 1 (x :: u32))" for x by (simp add: word_less_nat_alt)
  have c: "shards c = replicate (unat k) new_shard" "shard_mask c = k - 1" "promises c = []"
    "\<exists>x. shard_capacity c = max 1 x"
    using assms k by (auto simp: new_dedup_cache_def Let_def)
  have wf: "shards_wf c" using mask cap c by (auto simp: shards_wf_def shard_wf_def new_shard_def)
  have "shards c ! get_shard_index hash c i = new_shard" for i
    using shard_index_bound [OF wf] c(1) by simp
  then have "cache_state hash c i = Unseen" for i
    by (simp add: cache_state_def shard_state_def find_committed_def new_shard_def)
  then show ?thesis using wf c(3) by (simp add: cache_wf_def promises_wf_def)
qed

lemma run_dedup_wf:
  assumes "new_dedup_cache capacity ttl requested = Some c0"
  shows "cache_wf hash (run_dedup hash ops c0)"
proof -
  have "cache_wf hash (fold (dedup_step hash) ops c)" if "cache_wf hash c" for c
    using that by (induction ops arbitrary: c) (auto intro: cache_wf_step)
  then show ?thesis using new_dedup_cache_wf [OF assms] by (simp add: run_dedup_def)
qed


lemma sum_list_bound: "\<forall>s \<in> set ss. f s \<le> n \<Longrightarrow> sum_list (map f ss) \<le> length ss * (n :: nat)"
  by (induction ss) auto

lemma committed_bound:
  assumes "shards_wf c"
  shows "committed_count c \<le> length (shards c) * unat (shard_capacity c)"
  unfolding committed_count_def
  by (rule sum_list_bound) (use assms in \<open>auto simp: shards_wf_def\<close>)

section \<open>Properties\<close>

text \<open>C37: every cache that a run of operations reaches is well formed.  In each shard the
  index and the list hold the same entries, an event has at most one of them and is never both
  in flight and committed, no shard exceeds its capacity, so the committed entries stay within
  the number of shards times that capacity, and each event in flight has a promise of its own
  that has no value yet.\<close>

theorem dedup_cache_well_formed:
  assumes "new_dedup_cache capacity ttl requested = Some c0"
  shows "cache_wf hash (run_dedup hash ops c0) \<and>
    committed_count (run_dedup hash ops c0) \<le>
      length (shards (run_dedup hash ops c0)) * unat (shard_capacity (run_dedup hash ops c0))"
  using run_dedup_wf [OF assms, of hash ops] committed_bound by (auto simp: cache_wf_def)

definition sample_cache :: "(nat, nat) dedup_cache" where
  "sample_cache = \<lparr> shard_capacity = 1, cache_ttl = 10, shard_mask = 0, shards = [new_shard],
     promises = [], next_promise = 0, metrics = (\<lambda>_. 0) \<rparr>"

lemma sample_cache_new: "new_dedup_cache 1 10 1 = Some sample_cache"
proof -
  have b: "bit_ceil 1 = Some 1" by code_simp
  have "max 1 ((1 + 1 - 1) div 1) = (1 :: u32)" by simp
  then show ?thesis by (simp add: new_dedup_cache_def b Let_def sample_cache_def)
qed

theorem dedup_cache_well_formed_witness:
  "cache_wf of_nat (run_dedup of_nat [Try_acquire 7 1 0, Mark_committed 7 5 0] sample_cache)"
  using dedup_cache_well_formed [OF sample_cache_new, of of_nat "[Try_acquire 7 1 0, Mark_committed 7 5 0]"] by simp



end
