(* ===== verification/Audit_Ingestion.thy ===== *)
theory Audit_Ingestion
  imports Audit_Deduplication Queue_Contract
begin

text \<open>
  Audit ingestion: the bounded ingestion queue
  (\<open>src/src/audit/ingestion/bounded_ingestion_queue.cpp\<close>), the acknowledgement manager
  (\<open>acknowledgement_manager.cpp\<close>) and the ingestion service
  (\<open>src/src/audit/service/audit_ingestion_service.cpp\<close>) over the deduplication cache.
  The repository, the validator, the fingerprint, the clock and the outcome of waiting for
  another thread are the environment of a call.
\<close>

section \<open>The ingestion queue\<close>

record 'e ingestion_queue =
  iq_capacity :: nat
  iq_queue :: "'e list"
  iq_shutdown :: bool
  iq_total_enqueued :: u64
  iq_total_rejected :: u64
  iq_peak_watermark :: u64

definition new_ingestion_queue :: "nat \<Rightarrow> 'e ingestion_queue" where
  "new_ingestion_queue capacity = \<lparr> iq_capacity = (if capacity = 0 then 1 else capacity), iq_queue = [],
     iq_shutdown = False, iq_total_enqueued = 0, iq_total_rejected = 0, iq_peak_watermark = 0 \<rparr>"

definition iq_try_push :: "'e \<Rightarrow> 'e ingestion_queue \<Rightarrow> bool \<times> 'e ingestion_queue" where
  "iq_try_push item q =
    (if iq_shutdown q \<or> length (iq_queue q) \<ge> iq_capacity q
     then (False, q\<lparr> iq_total_rejected := iq_total_rejected q + 1 \<rparr>)
     else let q1 = q\<lparr> iq_queue := iq_queue q @ [item] \<rparr>
          in (True, q1\<lparr> iq_peak_watermark := max (iq_peak_watermark q) (of_nat (length (iq_queue q1))),
                       iq_total_enqueued := iq_total_enqueued q + 1 \<rparr>))"

text \<open>A timed pop is decided by the state in which its wait ends.\<close>

definition iq_pop :: "'e ingestion_queue \<Rightarrow> 'e option \<times> 'e ingestion_queue" where
  "iq_pop q = (case iq_queue q of [] \<Rightarrow> (None, q) | item # rest \<Rightarrow> (Some item, q\<lparr> iq_queue := rest \<rparr>))"

definition iq_pop_batch :: "nat \<Rightarrow> 'e ingestion_queue \<Rightarrow> 'e list \<times> 'e ingestion_queue" where
  "iq_pop_batch max_items q =
    (if iq_queue q = [] \<or> max_items = 0 then ([], q)
     else let batch_size = min max_items (length (iq_queue q))
          in (take batch_size (iq_queue q), q\<lparr> iq_queue := drop batch_size (iq_queue q) \<rparr>))"

definition iq_shut_down :: "'e ingestion_queue \<Rightarrow> 'e ingestion_queue" where
  "iq_shut_down q = (if iq_shutdown q then q else q\<lparr> iq_shutdown := True \<rparr>)"

interpretation ingestion: bounded_queue
  "\<lambda>q. iq_capacity q = cap \<and> length (iq_queue q) \<le> cap" "\<lambda>q. mset (iq_queue q)" id cap iq_try_push iq_pop
  for cap
  by unfold_locales (auto simp: iq_try_push_def iq_pop_def Let_def split: if_splits list.splits)

section \<open>Results and environment\<close>

record ingestion_result =
  ir_success :: bool
  ir_outcome :: ingestion_outcome
  ir_error_code :: string
  ir_error_message :: string
  ir_received_at :: time_point

record 'i batch_result =
  accepted_count :: u32
  rejected_count :: u32
  rejected_event_ids :: "'i list"
  item_results :: "('i \<times> ingestion_result) list"

record ('i, 'p) audit_event =
  event_id :: 'i
  event_received_at :: "time_point option"
  event_payload :: 'p

datatype write_status = WS_Committed | WS_DeterministicFailure | WS_AmbiguousOutcome

record write_result =
  wr_status :: write_status
  wr_error_code :: string
  wr_sanitized_reason :: string

text \<open>What a call sees of the rest: \<open>env_validate\<close> gives the message of a violation,
  \<open>env_insert\<close> the result of the repository or the text of its exception, \<open>env_await\<close>
  the value that the promise of another thread gets before the timeout, and \<open>env_system\<close>
  the system clock when the \<open>n\<close>-th event of the call is handled.\<close>

record ('i, 'p, 'f) ingestion_env =
  env_hash :: "'i \<Rightarrow> u64"
  env_validate :: "('i, 'p) audit_event \<Rightarrow> string option"
  env_fingerprint :: "('i, 'p) audit_event \<Rightarrow> 'f"
  env_insert :: "('i, 'p) audit_event list \<Rightarrow> string + write_result"
  env_await :: "nat \<Rightarrow> 'i persist_ack option"
  env_steady :: time_point
  env_system :: "nat \<Rightarrow> time_point"

definition reject_result :: "ingestion_outcome \<Rightarrow> string \<Rightarrow> string \<Rightarrow> time_point \<Rightarrow> ingestion_result" where
  "reject_result outcome code msg at = \<lparr> ir_success = False, ir_outcome = outcome, ir_error_code = code,
     ir_error_message = msg, ir_received_at = at \<rparr>"

definition accept_result :: "ingestion_outcome \<Rightarrow> time_point \<Rightarrow> ingestion_result" where
  "accept_result outcome at = \<lparr> ir_success = True, ir_outcome = outcome, ir_error_code = [],
     ir_error_message = [], ir_received_at = at \<rparr>"

definition value_or :: "time_point option \<Rightarrow> time_point \<Rightarrow> time_point" where
  "value_or t d = (case t of Some x \<Rightarrow> x | None \<Rightarrow> d)"

section \<open>AcknowledgementManager\<close>

type_synonym ('i, 'f) cache_ref = "('i, 'f) dedup_cache option"

definition failure_outcome :: "write_result \<Rightarrow> ingestion_outcome" where
  "failure_outcome w = (if wr_status w = WS_AmbiguousOutcome then PersistenceAmbiguous else PersistenceFailed)"

definition on_batch_persisted :: "('i, 'p, 'f) ingestion_env \<Rightarrow> ('i, 'p) audit_event list \<Rightarrow> ('i, 'f) cache_ref \<Rightarrow> ('i, 'f) cache_ref" where
  "on_batch_persisted env batch c = map_option
     (fold (\<lambda>e. mark_committed (env_hash env) (event_id e) (value_or (event_received_at e) (env_system env 0)) (env_steady env)) batch) c"

definition on_batch_failed :: "('i, 'p, 'f) ingestion_env \<Rightarrow> ('i, 'p) audit_event list \<Rightarrow> write_result \<Rightarrow> ('i, 'f) cache_ref \<Rightarrow> ('i, 'f) cache_ref" where
  "on_batch_failed env batch w c = map_option
     (fold (\<lambda>e. rollback_in_flight (env_hash env) (event_id e)
        \<lparr> ack_status = failure_outcome w, ack_event_id = event_id e,
          ack_received_at = value_or (event_received_at e) (env_system env 0),
          ack_error_code = wr_error_code w, ack_diagnostic_message = wr_sanitized_reason w \<rparr>) batch) c"

section \<open>AuditIngestionService\<close>

definition add_accepted :: "'i \<Rightarrow> ingestion_result \<Rightarrow> 'i batch_result \<Rightarrow> 'i batch_result" where
  "add_accepted i r b = b\<lparr> accepted_count := accepted_count b + 1, item_results := item_results b @ [(i, r)] \<rparr>"

definition add_rejected :: "'i \<Rightarrow> ingestion_result \<Rightarrow> 'i batch_result \<Rightarrow> 'i batch_result" where
  "add_rejected i r b = b\<lparr> rejected_count := rejected_count b + 1, rejected_event_ids := rejected_event_ids b @ [i],
     item_results := item_results b @ [(i, r)] \<rparr>"

record ('i, 'p, 'f) batch_state =
  bs_result :: "'i batch_result"
  bs_insert :: "('i, 'p) audit_event list"
  bs_waiters :: "('i \<times> nat option) list"
  bs_cache :: "('i, 'f) cache_ref"

definition conflict_message :: string where
  "conflict_message = ''Idempotency conflict: event_id already exists with different payload''"

text \<open>One turn of the loop over the events of a batch.\<close>

definition prepare_event :: "('i, 'p, 'f) ingestion_env \<Rightarrow> nat \<Rightarrow> ('i, 'p) audit_event
    \<Rightarrow> ('i, 'p, 'f) batch_state \<Rightarrow> ('i, 'p, 'f) batch_state" where
  "prepare_event env n evt b = (case env_validate env evt of
     Some msg \<Rightarrow> b\<lparr> bs_result := add_rejected (event_id evt)
       (reject_result ValidationRejected ''INVALID_ARGUMENT'' msg (env_system env n)) (bs_result b) \<rparr>
   | None \<Rightarrow>
      (let received_at = value_or (event_received_at evt) (env_system env n);
           prepared = evt\<lparr> event_received_at := Some received_at \<rparr>
       in case bs_cache b of
            None \<Rightarrow> b\<lparr> bs_insert := bs_insert b @ [prepared] \<rparr>
          | Some c \<Rightarrow>
             (case try_acquire (env_hash env) (event_id prepared) (env_fingerprint env prepared) (env_steady env) c of
                (acq, c') \<Rightarrow> let b' = b\<lparr> bs_cache := Some c' \<rparr> in
                  (case decision acq of
                     AlreadyCommitted \<Rightarrow> b'\<lparr> bs_result := add_accepted (event_id prepared)
                       (accept_result DuplicateCommitted (committed_received_at acq)) (bs_result b) \<rparr>
                   | PayloadConflict \<Rightarrow> b'\<lparr> bs_result := add_rejected (event_id prepared)
                       (reject_result IdempotencyConflict ''ALREADY_EXISTS'' conflict_message received_at) (bs_result b) \<rparr>
                   | CoalescedInFlight \<Rightarrow> b'\<lparr> bs_waiters := bs_waiters b @ [(event_id prepared, in_flight_future acq)] \<rparr>
                   | AcquiredNewInFlight \<Rightarrow> b'\<lparr> bs_insert := bs_insert b @ [prepared] \<rparr>))))"

fun prepare_events :: "('i, 'p, 'f) ingestion_env \<Rightarrow> nat \<Rightarrow> ('i, 'p) audit_event list
    \<Rightarrow> ('i, 'p, 'f) batch_state \<Rightarrow> ('i, 'p, 'f) batch_state" where
  "prepare_events env n [] b = b"
| "prepare_events env n (evt # evts) b = prepare_events env (Suc n) evts (prepare_event env n evt b)"

text \<open>What \<open>wait_for\<close> on the future of an event yields: the value of its promise, which may
  have been set by this call, or what another thread sets in time.\<close>

definition await_future :: "('i, 'p, 'f) ingestion_env \<Rightarrow> ('i, 'f) cache_ref \<Rightarrow> nat option \<Rightarrow> 'i persist_ack option" where
  "await_future env c future = (case future of
     None \<Rightarrow> None
   | Some p \<Rightarrow> (case c of None \<Rightarrow> None
      | Some c \<Rightarrow> (case map_of (promises c) p of Some a \<Rightarrow> Some a | None \<Rightarrow> env_await env p)))"

definition settle_waiter :: "('i, 'p, 'f) ingestion_env \<Rightarrow> ('i, 'f) cache_ref \<Rightarrow> 'i \<times> nat option
    \<Rightarrow> 'i batch_result \<Rightarrow> 'i batch_result" where
  "settle_waiter env c w b = (case await_future env c (snd w) of
     Some ack \<Rightarrow>
       if ack_status ack = PersistedNew \<or> ack_status ack = DuplicateCoalesced
       then add_accepted (fst w) (accept_result DuplicateCoalesced (ack_received_at ack)) b
       else add_rejected (fst w)
         (reject_result (ack_status ack) (ack_error_code ack) (ack_diagnostic_message ack) (ack_received_at ack)) b
   | None \<Rightarrow> add_rejected (fst w) (reject_result PersistenceAmbiguous ''DEADLINE_EXCEEDED''
       ''In-flight persistence acknowledgment timed out'' (env_system env 0)) b)"

text \<open>The insertion of the acquired events: all of them are accepted or all are rejected.  An
  exception of the repository leaves the call.\<close>

definition insert_acquired :: "('i, 'p, 'f) ingestion_env \<Rightarrow> ('i, 'p, 'f) batch_state
    \<Rightarrow> string + 'i batch_result \<times> ('i, 'f) cache_ref" where
  "insert_acquired env b =
    (if bs_insert b = [] then Inr (bs_result b, bs_cache b)
     else case env_insert env (bs_insert b) of
         Inl msg \<Rightarrow> Inl msg
       | Inr w \<Rightarrow>
          if wr_status w = WS_Committed
          then Inr (fold (\<lambda>e. add_accepted (event_id e)
                 (accept_result PersistedNew (value_or (event_received_at e) (env_system env 0)))) (bs_insert b) (bs_result b),
               on_batch_persisted env (bs_insert b) (bs_cache b))
          else Inr (fold (\<lambda>e. add_rejected (event_id e)
                 (reject_result (failure_outcome w) (wr_error_code w) (wr_sanitized_reason w)
                   (value_or (event_received_at e) (env_system env 0)))) (bs_insert b) (bs_result b),
               on_batch_failed env (bs_insert b) w (bs_cache b)))"

definition empty_batch_result :: "'i batch_result" where
  "empty_batch_result = \<lparr> accepted_count = 0, rejected_count = 0, rejected_event_ids = [], item_results = [] \<rparr>"

definition ingest_batch :: "('i, 'p, 'f) ingestion_env \<Rightarrow> ('i, 'p) audit_event list \<Rightarrow> ('i, 'f) cache_ref
    \<Rightarrow> (string + 'i batch_result) \<times> ('i, 'f) cache_ref" where
  "ingest_batch env events c =
    (if events = [] then (Inr empty_batch_result, c)
     else if length events > 100
     then (Inr (fold (\<lambda>e b. add_rejected (event_id e)
             (reject_result ValidationRejected ''INVALID_ARGUMENT'' ''Batch size exceeds maximum limit of 100 events''
               (env_system env 0)) b) events empty_batch_result), c)
     else
      (let b = prepare_events env 0 events
             \<lparr> bs_result = empty_batch_result, bs_insert = [], bs_waiters = [], bs_cache = c \<rparr>
       in case insert_acquired env b of
            Inl msg \<Rightarrow> (Inl msg, bs_cache b)
          | Inr (r, c') \<Rightarrow> (Inr (fold (settle_waiter env c') (bs_waiters b) r), c')))"

text \<open>The single event; the guard rolls the reservation back if the repository throws, and
  the exception leaves the call.\<close>

definition ingest_single :: "('i, 'p, 'f) ingestion_env \<Rightarrow> ('i, 'p) audit_event \<Rightarrow> ('i, 'f) cache_ref
    \<Rightarrow> (string + ingestion_result) \<times> ('i, 'f) cache_ref" where
  "ingest_single env event c = (case env_validate env event of
     Some msg \<Rightarrow> (Inr (reject_result ValidationRejected ''INVALID_ARGUMENT'' msg (env_system env 0)), c)
   | None \<Rightarrow>
      (let received_at = value_or (event_received_at event) (env_system env 0);
           to_insert = event\<lparr> event_received_at := Some received_at \<rparr>;
           written = (\<lambda>w. if wr_status w = WS_Committed then accept_result PersistedNew received_at
             else reject_result (failure_outcome w) (wr_error_code w) (wr_sanitized_reason w) received_at)
       in case c of
            None \<Rightarrow>
             (case env_insert env [to_insert] of
                Inl msg \<Rightarrow> (Inr (reject_result PersistenceFailed ''REPOSITORY_ERROR'' msg received_at), c)
              | Inr w \<Rightarrow> (Inr (written w), c))
          | Some cache \<Rightarrow>
             (case try_acquire (env_hash env) (event_id event) (env_fingerprint env event) (env_steady env) cache of
                (acq, c1) \<Rightarrow>
                 (case decision acq of
                    AlreadyCommitted \<Rightarrow> (Inr (accept_result DuplicateCommitted (committed_received_at acq)), Some c1)
                  | PayloadConflict \<Rightarrow>
                      (Inr (reject_result IdempotencyConflict ''ALREADY_EXISTS'' conflict_message received_at), Some c1)
                  | CoalescedInFlight \<Rightarrow>
                     (case await_future env (Some c1) (in_flight_future acq) of
                        Some ack \<Rightarrow>
                          (let ok = (ack_status ack = PersistedNew \<or> ack_status ack = DuplicateCoalesced)
                           in (Inr \<lparr> ir_success = ok, ir_outcome = (if ok then DuplicateCoalesced else ack_status ack),
                                    ir_error_code = ack_error_code ack, ir_error_message = ack_diagnostic_message ack,
                                    ir_received_at = ack_received_at ack \<rparr>, Some c1))
                      | None \<Rightarrow> (Inr (reject_result PersistenceAmbiguous ''DEADLINE_EXCEEDED''
                          ''In-flight persistence acknowledgment timed out'' received_at), Some c1))
                  | AcquiredNewInFlight \<Rightarrow>
                     (case env_insert env [to_insert] of
                        Inl msg \<Rightarrow> (Inl msg, Some (rollback_in_flight (env_hash env) (event_id event)
                          \<lparr> ack_status = PersistenceFailed, ack_event_id = event_id event, ack_received_at = received_at,
                            ack_error_code = ''REPOSITORY_ERROR'',
                            ack_diagnostic_message = ''ClickHouse batch persistence insertion failed'' \<rparr> c1))
                      | Inr w \<Rightarrow> (Inr (written w),
                          if wr_status w = WS_Committed then on_batch_persisted env [to_insert] (Some c1)
                          else on_batch_failed env [to_insert] w (Some c1)))))))"


section \<open>Accounting\<close>

text \<open>The counters of a batch result agree with its items.\<close>

definition tally :: "'i batch_result \<Rightarrow> bool" where
  "tally b \<longleftrightarrow> accepted_count b = of_nat (length (filter (\<lambda>x. ir_success (snd x)) (item_results b))) \<and>
    rejected_event_ids b = map fst (filter (\<lambda>x. \<not> ir_success (snd x)) (item_results b)) \<and>
    rejected_count b = of_nat (length (rejected_event_ids b))"

definition answers :: "'i \<Rightarrow> 'i batch_result \<Rightarrow> 'i batch_result \<Rightarrow> bool" where
  "answers i b b' \<longleftrightarrow> (tally b \<longrightarrow> tally b') \<and> map fst (item_results b') = map fst (item_results b) @ [i]"

lemma result_success [simp]:
  "\<not> ir_success (reject_result o' code msg at)" "ir_success (accept_result o' at)"
  by (simp_all add: reject_result_def accept_result_def)

lemma answers_add [simp]:
  "ir_success r \<Longrightarrow> answers i b (add_accepted i r b)" "\<not> ir_success r \<Longrightarrow> answers i b (add_rejected i r b)"
  by (auto simp: answers_def tally_def add_accepted_def add_rejected_def)

lemma fold_answers:
  assumes "\<And>x b. answers (key x) b (f x b)" "tally b"
  shows "tally (fold f xs b) \<and> map fst (item_results (fold f xs b)) = map fst (item_results b) @ map key xs"
  using assms(2)
proof (induction xs arbitrary: b)
  case (Cons x xs)
  have "tally (f x b)" "map fst (item_results (f x b)) = map fst (item_results b) @ [key x]"
    using assms(1) [of x b] Cons.prems by (auto simp: answers_def)
  with Cons.IH [of "f x b"] show ?case by simp
qed simp

lemma settle_answers: "answers (fst w) b (settle_waiter env c w b)"
  by (simp add: settle_waiter_def split: option.split)

lemma tally_empty: "tally empty_batch_result"
  by (simp add: tally_def empty_batch_result_def)

section \<open>Reservations\<close>

abbreviation in_flight :: "('i \<Rightarrow> u64) \<Rightarrow> ('i, 'f) dedup_cache \<Rightarrow> 'i \<Rightarrow> bool" where
  "in_flight hash c i \<equiv> \<exists>f p. cache_state hash c i = InFlight f p"

text \<open>Operations that only end reservations, as the acknowledgement manager runs them.\<close>

lemma fold_settles:
  assumes "\<And>e c. cache_wf hash c \<Longrightarrow> cache_wf hash (g e c) \<and> \<not> in_flight hash (g e c) (event_id e) \<and>
      (\<forall>j f p. cache_state hash (g e c) j = InFlight f p \<longrightarrow> cache_state hash c j = InFlight f p)"
    and "cache_wf hash c"
  shows "cache_wf hash (fold g es c) \<and> (\<forall>e \<in> set es. \<not> in_flight hash (fold g es c) (event_id e)) \<and>
    (\<forall>j f p. cache_state hash (fold g es c) j = InFlight f p \<longrightarrow> cache_state hash c j = InFlight f p)"
  using assms(2)
proof (induction es arbitrary: c)
  case (Cons e es)
  note g = assms(1) [OF Cons.prems, of e]
  with Cons.IH [of "g e c"] have ih: "cache_wf hash (fold g es (g e c))"
    "\<forall>e' \<in> set es. \<not> in_flight hash (fold g es (g e c)) (event_id e')"
    "\<forall>j f p. cache_state hash (fold g es (g e c)) j = InFlight f p \<longrightarrow> cache_state hash (g e c) j = InFlight f p"
    by blast+
  then show ?case using g by (simp, blast)
qed simp

lemma mark_settles:
  assumes "cache_wf hash c"
  shows "cache_wf hash (mark_committed hash i rc now c) \<and> \<not> in_flight hash (mark_committed hash i rc now c) i \<and>
    (\<forall>j f p. cache_state hash (mark_committed hash i rc now c) j = InFlight f p \<longrightarrow> cache_state hash c j = InFlight f p)"
proof -
  have wf: "shards_wf c" using assms by (simp add: cache_wf_def)
  note st = mark_committed_step [OF wf refl, where hash = hash and i = i and rc = rc and now = now]
  have i: "\<not> in_flight hash (mark_committed hash i rc now c) i" by (simp add: st(3) split: dedup_state.split)
  moreover have "cache_state hash c j = InFlight f p"
    if "cache_state hash (mark_committed hash i rc now c) j = InFlight f p" for j f p
    using st(4) [of j] i that by (cases "j = i") auto
  ultimately show ?thesis using cache_wf_step [OF assms, of "Mark_committed i rc now"] by auto
qed

lemma rollback_settles:
  assumes "cache_wf hash c"
  shows "cache_wf hash (rollback_in_flight hash i a c) \<and> \<not> in_flight hash (rollback_in_flight hash i a c) i \<and>
    (\<forall>j f p. cache_state hash (rollback_in_flight hash i a c) j = InFlight f p \<longrightarrow> cache_state hash c j = InFlight f p)"
proof -
  have wf: "shards_wf c" using assms by (simp add: cache_wf_def)
  note st = rollback_step [OF wf refl, where hash = hash and i = i and a = a]
  have i: "\<not> in_flight hash (rollback_in_flight hash i a c) i" by (simp add: st(2) split: dedup_state.split)
  moreover have "cache_state hash c j = InFlight f p"
    if "cache_state hash (rollback_in_flight hash i a c) j = InFlight f p" for j f p
    using st(3) [of j] i that by (cases "j = i") auto
  ultimately show ?thesis using cache_wf_step [OF assms, of "Rollback i a"] by auto
qed

text \<open>While the events of a batch are looked up, exactly the acquired ones enter the flight.\<close>

definition reserved :: "('i \<Rightarrow> u64) \<Rightarrow> ('i, 'f) dedup_cache \<Rightarrow> ('i, 'p) audit_event list \<Rightarrow> ('i, 'f) dedup_cache \<Rightarrow> bool" where
  "reserved hash c es c' \<longleftrightarrow> cache_wf hash c' \<and>
    (\<forall>e \<in> set es. in_flight hash c' (event_id e) \<and> \<not> in_flight hash c (event_id e)) \<and>
    (\<forall>i f p. cache_state hash c' i = InFlight f p \<longrightarrow>
      cache_state hash c i = InFlight f p \<or> i \<in> event_id ` set es) \<and>
    (\<forall>i f p. cache_state hash c i = InFlight f p \<longrightarrow> cache_state hash c' i = InFlight f p)"

lemma acquire_wf: "cache_wf hash c \<Longrightarrow> try_acquire hash i fp now c = (r, c') \<Longrightarrow> cache_wf hash c'"
  using cache_wf_step [of hash c "Try_acquire i fp now"] by simp

lemma acquire_reserved:
  assumes "reserved hash c es c1" "try_acquire hash (event_id e) fp now c1 = (r, c2)"
  shows "decision r = AcquiredNewInFlight \<Longrightarrow> reserved hash c (es @ [e]) c2"
    "decision r \<noteq> AcquiredNewInFlight \<Longrightarrow> reserved hash c es c2"
proof -
  have wf1: "cache_wf hash c1" using assms(1) by (simp add: reserved_def)
  then have s1: "shards_wf c1" by (simp add: cache_wf_def)
  note wf2 = acquire_wf [OF wf1 assms(2)] and st = try_acquire_step [OF s1 assms(2)]
  show "reserved hash c (es @ [e]) c2" if "decision r = AcquiredNewInFlight"
  proof -
    have new: "\<not> in_flight hash c1 (event_id e)" "in_flight hash c2 (event_id e)"
      using st(2) that by (cases "cache_state hash c1 (event_id e)"; auto split: if_splits)+
    have keep: "cache_state hash c2 i = InFlight f p" if "cache_state hash c1 i = InFlight f p" for i f p
      using st(3) [of i] that new by (cases "i = event_id e") auto
    have prev: "cache_state hash c1 i = InFlight f p \<or> i = event_id e" if "cache_state hash c2 i = InFlight f p" for i f p
      using st(3) [of i] that by (cases "i = event_id e") auto
    note r = assms(1) [unfolded reserved_def]
    have "\<not> in_flight hash c (event_id e)" using r new(1) by blast
    moreover have "in_flight hash c2 (event_id x) \<and> \<not> in_flight hash c (event_id x)" if "x \<in> set es" for x
      using r keep that by blast
    moreover have "cache_state hash c i = InFlight f p \<or> i \<in> event_id ` set (es @ [e])"
      if "cache_state hash c2 i = InFlight f p" for i f p
    proof -
      have "cache_state hash c i = InFlight f p \<or> i \<in> event_id ` set es \<or> i = event_id e"
        using prev [OF that] r by blast
      then show ?thesis by auto
    qed
    moreover have "cache_state hash c2 i = InFlight f p" if "cache_state hash c i = InFlight f p" for i f p
      using r keep that by blast
    ultimately show ?thesis using wf2 new(2) unfolding reserved_def by auto
  qed
  show "reserved hash c es c2" if "decision r \<noteq> AcquiredNewInFlight"
  proof -
    have "cache_state hash c2 (event_id e) = cache_state hash c1 (event_id e)"
      using st(2) that by (cases "cache_state hash c1 (event_id e)") (auto split: if_splits)
    then have "cache_state hash c2 i = cache_state hash c1 i" for i using st(3) by (cases "i = event_id e") auto
    then show ?thesis using assms(1) wf2 by (simp add: reserved_def)
  qed
qed

definition batch_inv :: "('i, 'p, 'f) ingestion_env \<Rightarrow> ('i, 'f) dedup_cache \<Rightarrow> 'i list \<Rightarrow> ('i, 'p, 'f) batch_state \<Rightarrow> bool" where
  "batch_inv env c ids b \<longleftrightarrow> tally (bs_result b) \<and>
    mset (map fst (item_results (bs_result b))) + mset (map event_id (bs_insert b)) + mset (map fst (bs_waiters b)) = mset ids \<and>
    (\<exists>c'. bs_cache b = Some c' \<and> reserved (env_hash env) c (bs_insert b) c')"

lemma answersD:
  assumes "answers i b b'" "tally b"
  shows "tally b'" "mset (map fst (item_results b')) = add_mset i (mset (map fst (item_results b)))"
  using assms unfolding answers_def by auto

lemma prepare_event_inv:
  assumes "batch_inv env c ids b"
  shows "batch_inv env c (ids @ [event_id evt]) (prepare_event env n evt b)"
proof -
  obtain c1 where c1: "bs_cache b = Some c1" "reserved (env_hash env) c (bs_insert b) c1"
    using assms by (auto simp: batch_inv_def)
  have t: "tally (bs_result b)"
    "mset (map fst (item_results (bs_result b))) + mset (map event_id (bs_insert b)) + mset (map fst (bs_waiters b)) = mset ids"
    using assms by (simp_all add: batch_inv_def)
  note acc = answersD [OF answers_add(1) t(1)] and rej = answersD [OF answers_add(2) t(1)]
  show ?thesis
  proof (cases "env_validate env evt")
    case (Some msg)
    then show ?thesis using t(2) c1 rej by (simp add: prepare_event_def batch_inv_def)
  next
    case None
    let ?at = "value_or (event_received_at evt) (env_system env n)"
    let ?e = "evt\<lparr> event_received_at := Some ?at \<rparr>"
    obtain r c2 where a: "try_acquire (env_hash env) (event_id ?e) (env_fingerprint env ?e) (env_steady env) c1 = (r, c2)"
      by fastforce
    note res = acquire_reserved [OF c1(2) a]
    show ?thesis
      using None a t(2) c1(1) rej acc res t(1)
      by (cases "decision r") (simp_all add: prepare_event_def batch_inv_def Let_def)
  qed
qed

lemma prepare_events_inv:
  "batch_inv env c ids b \<Longrightarrow> batch_inv env c (ids @ map event_id evts) (prepare_events env n evts b)"
proof (induction evts arbitrary: ids b n)
  case (Cons e evts)
  from Cons.IH [OF prepare_event_inv [OF Cons.prems]] show ?case by simp
qed simp


text \<open>Once the acquired events have left the flight, nothing new is in it.\<close>

lemma reservations_ended:
  assumes "reserved hash c es c1"
    and "cache_wf hash c' \<and> (\<forall>e \<in> set es. \<not> in_flight hash c' (event_id e)) \<and>
      (\<forall>j f p. cache_state hash c' j = InFlight f p \<longrightarrow> cache_state hash c1 j = InFlight f p)"
  shows "cache_wf hash c' \<and> (\<forall>i f p. cache_state hash c' i = InFlight f p \<longrightarrow> cache_state hash c i = InFlight f p)"
proof -
  have "cache_state hash c i = InFlight f p" if i: "cache_state hash c' i = InFlight f p" for i f p
  proof (rule ccontr)
    assume n: "cache_state hash c i \<noteq> InFlight f p"
    have "cache_state hash c1 i = InFlight f p" using assms(2) i by blast
    then have "i \<in> event_id ` set es" using assms(1) n unfolding reserved_def by blast
    then obtain e where "e \<in> set es" "i = event_id e" by blast
    then show False using assms(2) i by blast
  qed
  with assms(2) show ?thesis by blast
qed

lemma insert_acquired_settles:
  assumes "batch_inv env c ids b" "insert_acquired env b = Inr (r, c2)"
  shows "tally r \<and> mset (map fst (item_results r)) + mset (map fst (bs_waiters b)) = mset ids \<and>
    (\<exists>c'. c2 = Some c' \<and> cache_wf (env_hash env) c' \<and>
      (\<forall>i f p. cache_state (env_hash env) c' i = InFlight f p \<longrightarrow> cache_state (env_hash env) c i = InFlight f p))"
proof -
  obtain c1 where c1: "bs_cache b = Some c1" "reserved (env_hash env) c (bs_insert b) c1"
    using assms(1) by (auto simp: batch_inv_def)
  have t: "tally (bs_result b)"
    "mset (map fst (item_results (bs_result b))) + mset (map event_id (bs_insert b)) + mset (map fst (bs_waiters b)) = mset ids"
    using assms(1) by (simp_all add: batch_inv_def)
  have wf: "cache_wf (env_hash env) c1" using c1(2) unfolding reserved_def by blast
  show ?thesis
  proof (cases "bs_insert b = []")
    case True
    then have "r = bs_result b" "c2 = Some c1" using assms(2) c1(1) by (simp_all add: insert_acquired_def)
    moreover have "\<forall>i f p. cache_state (env_hash env) c1 i = InFlight f p \<longrightarrow> cache_state (env_hash env) c i = InFlight f p"
      using reservations_ended [OF c1(2), of c1] True wf by auto
    ultimately show ?thesis using t True wf by simp
  next
    case False
    obtain w where w: "env_insert env (bs_insert b) = Inr w"
      using assms(2) False by (auto simp: insert_acquired_def split: sum.splits)
    show ?thesis
    proof (cases "wr_status w = WS_Committed")
      case True
      let ?g = "\<lambda>e. mark_committed (env_hash env) (event_id e) (value_or (event_received_at e) (env_system env 0)) (env_steady env)"
      let ?f = "\<lambda>e. add_accepted (event_id e) (accept_result PersistedNew (value_or (event_received_at e) (env_system env 0)))"
      have eq: "r = fold ?f (bs_insert b) (bs_result b)" "c2 = Some (fold ?g (bs_insert b) c1)"
        using assms(2) False w True c1(1) by (simp_all add: insert_acquired_def on_batch_persisted_def)
      have ans: "tally r \<and> map fst (item_results r) = map fst (item_results (bs_result b)) @ map event_id (bs_insert b)"
        unfolding eq(1) by (rule fold_answers [OF _ t(1)]) simp
      have "cache_wf (env_hash env) (fold ?g (bs_insert b) c1) \<and>
          (\<forall>e \<in> set (bs_insert b). \<not> in_flight (env_hash env) (fold ?g (bs_insert b) c1) (event_id e)) \<and>
          (\<forall>j f p. cache_state (env_hash env) (fold ?g (bs_insert b) c1) j = InFlight f p \<longrightarrow>
            cache_state (env_hash env) c1 j = InFlight f p)"
        by (rule fold_settles [OF mark_settles wf])
      from reservations_ended [OF c1(2) this] ans t(2) eq(2) show ?thesis by simp
    next
      case fail: False
      let ?g = "\<lambda>e. rollback_in_flight (env_hash env) (event_id e)
        \<lparr> ack_status = failure_outcome w, ack_event_id = event_id e,
          ack_received_at = value_or (event_received_at e) (env_system env 0),
          ack_error_code = wr_error_code w, ack_diagnostic_message = wr_sanitized_reason w \<rparr>"
      let ?f = "\<lambda>e. add_rejected (event_id e) (reject_result (failure_outcome w) (wr_error_code w)
        (wr_sanitized_reason w) (value_or (event_received_at e) (env_system env 0)))"
      have eq: "r = fold ?f (bs_insert b) (bs_result b)" "c2 = Some (fold ?g (bs_insert b) c1)"
        using assms(2) False w fail c1(1) by (simp_all add: insert_acquired_def on_batch_failed_def)
      have ans: "tally r \<and> map fst (item_results r) = map fst (item_results (bs_result b)) @ map event_id (bs_insert b)"
        unfolding eq(1) by (rule fold_answers [OF _ t(1)]) simp
      have "cache_wf (env_hash env) (fold ?g (bs_insert b) c1) \<and>
          (\<forall>e \<in> set (bs_insert b). \<not> in_flight (env_hash env) (fold ?g (bs_insert b) c1) (event_id e)) \<and>
          (\<forall>j f p. cache_state (env_hash env) (fold ?g (bs_insert b) c1) j = InFlight f p \<longrightarrow>
            cache_state (env_hash env) c1 j = InFlight f p)"
        by (rule fold_settles [OF rollback_settles wf])
      from reservations_ended [OF c1(2) this] ans t(2) eq(2) show ?thesis by simp
    qed
  qed
qed

lemma batch_inv_start:
  assumes "cache_wf (env_hash env) c"
  shows "batch_inv env c [] \<lparr> bs_result = empty_batch_result, bs_insert = [], bs_waiters = [], bs_cache = Some c \<rparr>"
  using assms tally_empty by (auto simp: batch_inv_def reserved_def empty_batch_result_def)

abbreviation prepared_batch :: "('i, 'p, 'f) ingestion_env \<Rightarrow> ('i, 'p) audit_event list \<Rightarrow> ('i, 'f) dedup_cache \<Rightarrow> ('i, 'p, 'f) batch_state" where
  "prepared_batch env events c \<equiv> prepare_events env 0 events
     \<lparr> bs_result = empty_batch_result, bs_insert = [], bs_waiters = [], bs_cache = Some c \<rparr>"

lemma prepared_batch_inv:
  "cache_wf (env_hash env) c \<Longrightarrow> batch_inv env c (map event_id events) (prepared_batch env events c)"
  using prepare_events_inv [OF batch_inv_start] by force

lemma ingest_batch_returns:
  assumes "ingest_batch env events (Some c) = (Inr r, c')" "events \<noteq> []" "length events \<le> 100"
  obtains r0 where "insert_acquired env (prepared_batch env events c) = Inr (r0, c')"
    "r = fold (settle_waiter env c') (bs_waiters (prepared_batch env events c)) r0"
  using assms by (auto simp: ingest_batch_def Let_def split: sum.splits prod.splits)

lemma ingest_batch_throws:
  assumes "ingest_batch env events (Some c) = (Inl msg, c')"
  shows "env_insert env (bs_insert (prepared_batch env events c)) = Inl msg"
    "bs_insert (prepared_batch env events c) \<noteq> []" "c' = bs_cache (prepared_batch env events c)"
  using assms by (auto simp: ingest_batch_def insert_acquired_def Let_def split: sum.splits prod.splits if_splits)

section \<open>Properties\<close>


definition sample_env :: "(string + write_result) \<Rightarrow> (nat, unit, nat) ingestion_env" where
  "sample_env w = \<lparr> env_hash = of_nat, env_validate = (\<lambda>_. None), env_fingerprint = event_id, env_insert = (\<lambda>_. w),
     env_await = (\<lambda>_. None), env_steady = 0, env_system = (\<lambda>_. 5) \<rparr>"

definition sample_event :: "nat \<Rightarrow> (nat, unit) audit_event" where
  "sample_event i = \<lparr> event_id = i, event_received_at = None, event_payload = () \<rparr>"

definition sample_written :: "string + write_result" where
  "sample_written = Inr \<lparr> wr_status = WS_Committed, wr_error_code = [], wr_sanitized_reason = [] \<rparr>"

lemma sample_env_wf: "cache_wf (env_hash (sample_env w)) sample_cache"
  by (rule new_dedup_cache_wf [OF sample_cache_new])

lemma sample_batch_returns:
  "isl (fst (ingest_batch (sample_env sample_written) [sample_event 7, sample_event 7] (Some sample_cache))) = False"
  by code_simp


text \<open>An event in flight stays there until it is committed or rolled back.\<close>

definition ends :: "'i \<Rightarrow> ('i, 'f) dedup_op \<Rightarrow> bool" where
  "ends i op \<longleftrightarrow> (case op of Mark_committed j _ _ \<Rightarrow> j = i | Rollback j _ \<Rightarrow> j = i | _ \<Rightarrow> False)"

lemma in_flight_step:
  assumes "cache_wf hash c" "cache_state hash c i = InFlight f p" "\<not> ends i op"
  shows "cache_state hash (dedup_step hash op c) i = InFlight f p"
proof -
  have wf: "shards_wf c" using assms(1) by (simp add: cache_wf_def)
  show ?thesis
  proof (cases op)
    case (Try_acquire j fp now)
    obtain r c' where t: "try_acquire hash j fp now c = (r, c')" by fastforce
    show ?thesis
      using try_acquire_step(2,3) [OF wf t] assms(2) Try_acquire t by (cases "i = j") (auto split: if_splits)
  next
    case (Mark_committed j rc now)
    then have "i \<noteq> j" using assms(3) by (auto simp: ends_def)
    with mark_committed_step(4) [OF wf refl this, of hash rc now] assms(2) Mark_committed show ?thesis by auto
  next
    case (Rollback j a)
    then have "i \<noteq> j" using assms(3) by (auto simp: ends_def)
    with rollback_step(3) [OF wf refl this] assms(2) Rollback show ?thesis by simp
  next
    case (Evict_expired now)
    with evict_expired_step(4) [OF wf refl] assms(2) show ?thesis by simp
  qed
qed

lemma in_flight_run:
  assumes "cache_wf hash c" "cache_state hash c i = InFlight f p" "\<forall>op \<in> set ops. \<not> ends i op"
  shows "cache_state hash (run_dedup hash ops c) i = InFlight f p"
  using assms unfolding run_dedup_def
proof (induction ops arbitrary: c)
  case (Cons op ops)
  have "cache_state hash (dedup_step hash op c) i = InFlight f p"
    using in_flight_step [OF Cons.prems(1,2)] Cons.prems(3) by simp
  with Cons.IH [OF cache_wf_step [OF Cons.prems(1)]] Cons.prems(3) show ?case by simp
qed simp

text \<open>C40: an exception of the repository strands the events of a batch.  When the insertion
  throws, the call leaves without rolling back: some submitted event that was not in flight
  before now is, and neither time nor the sweep nor further submissions end that,
  so every later submission of the event waits for a promise that nobody fulfils.  The single
  call rolls back in the same case.\<close>

theorem batch_exception_strands_events:
  assumes "cache_wf (env_hash env) c" "ingest_batch env events (Some c) = (Inl msg, Some c')"
  shows "\<exists>e \<in> set events. \<exists>f p. (\<forall>g q. cache_state (env_hash env) c (event_id e) \<noteq> InFlight g q) \<and>
    (\<forall>ops. (\<forall>op \<in> set ops. \<not> ends (event_id e) op) \<longrightarrow>
      cache_state (env_hash env) (run_dedup (env_hash env) ops c') (event_id e) = InFlight f p)"
proof -
  let ?b = "prepared_batch env events c"
  note th = ingest_batch_throws [OF assms(2)]
  note inv = prepared_batch_inv [OF assms(1), of events, unfolded batch_inv_def]
  obtain x where x: "x \<in> set (bs_insert ?b)" using th(2) by (cases "bs_insert ?b") auto
  have res: "reserved (env_hash env) c (bs_insert ?b) c'" using inv th(3) by auto
  then obtain f p where fp: "cache_state (env_hash env) c' (event_id x) = InFlight f p"
    "\<forall>g q. cache_state (env_hash env) c (event_id x) \<noteq> InFlight g q"
    using x unfolding reserved_def by blast
  have wf: "cache_wf (env_hash env) c'" using res unfolding reserved_def by blast
  have "event_id x \<in># mset (map event_id (bs_insert ?b))" using x by simp
  then have "event_id x \<in># mset (map fst (item_results (bs_result ?b))) + mset (map event_id (bs_insert ?b)) +
      mset (map fst (bs_waiters ?b))" by (simp only: union_iff) blast
  then have "event_id x \<in># mset (map event_id events)" using inv by (simp only:)
  then obtain e where e: "e \<in> set events" "event_id e = event_id x" by auto
  have "\<exists>f p. (\<forall>g q. cache_state (env_hash env) c (event_id x) \<noteq> InFlight g q) \<and>
    (\<forall>ops. (\<forall>op \<in> set ops. \<not> ends (event_id x) op) \<longrightarrow>
      cache_state (env_hash env) (run_dedup (env_hash env) ops c') (event_id x) = InFlight f p)"
    using in_flight_run [OF wf fp(1)] fp(2) by blast
  then show ?thesis by (intro bexI [OF _ e(1)]) (simp only: e(2))
qed

lemma sample_batch_throws:
  "map_prod (\<lambda>x. case x of Inl m \<Rightarrow> Some m | Inr _ \<Rightarrow> None) (\<lambda>c. c = None)
     (ingest_batch (sample_env (Inl ''timeout'')) [sample_event 7] (Some sample_cache)) = (Some ''timeout'', False)"
  by code_simp

theorem batch_exception_strands_events_witness:
  "\<exists>c'. ingest_batch (sample_env (Inl ''timeout'')) [sample_event 7] (Some sample_cache) = (Inl ''timeout'', Some c') \<and>
    (\<exists>f p. cache_state of_nat (run_dedup of_nat [Evict_expired 1000000, Try_acquire 7 7 2000000] c') 7 = InFlight f p)"
proof -
  obtain c' where b: "ingest_batch (sample_env (Inl ''timeout'')) [sample_event 7] (Some sample_cache) = (Inl ''timeout'', Some c')"
    using sample_batch_throws
    by (cases "ingest_batch (sample_env (Inl ''timeout'')) [sample_event 7] (Some sample_cache)") (auto split: sum.splits)
  have h: "env_hash (sample_env (Inl ''timeout'')) = of_nat" by (simp add: sample_env_def)
  have "\<forall>op \<in> set [Evict_expired 1000000, Try_acquire 7 (7 :: nat) 2000000]. \<not> ends (7 :: nat) op" by (simp add: ends_def)
  with batch_exception_strands_events [OF sample_env_wf b] b show ?thesis
    by (fastforce simp: h sample_event_def)
qed

end
