(* ===== verification/Spec2Isabelle.thy ===== *)
theory Spec2Isabelle
  imports Delivery_Pipeline Conversation_Service Request_Budget Resource_Pools Drain_Manager Audit_Ingestion
begin

text \<open>
  A verification library for SecureCloud.  Plan: one theory per component, a
  prelude with the shared vocabulary, locales for the interfaces.
\<close>

end
